theory Spec2Isabelle
  imports Main
begin

section \<open>Strings and the regular expressions of the parser\<close>

text \<open>
  A Go string is a sequence of bytes, here a \<open>string\<close> (a list of 8-bit characters).
  The regular expressions of \<^verbatim>\<open>org.go\<close> only name ASCII characters, and a byte of a
  multi-byte UTF-8 sequence is never an ASCII byte, so matching byte by byte agrees with
  Go's matching rune by rune.
\<close>

text \<open>The class \<^verbatim>\<open>\s\<close> of Go's regexp package: tab, newline, form feed, carriage return, space.\<close>

definition reSpace :: "char \<Rightarrow> bool" where
  "reSpace c = (c = CHR 0x09 \<or> c = CHR 0x0A \<or> c = CHR 0x0C \<or> c = CHR 0x0D \<or> c = CHR '' '')"

text \<open>\<^verbatim>\<open>strings.HasPrefix\<close> and \<^verbatim>\<open>strings.Contains\<close>.\<close>

definition HasPrefix :: "string \<Rightarrow> string \<Rightarrow> bool" where
  "HasPrefix s p = (take (length p) s = p)"

fun Contains :: "string \<Rightarrow> string \<Rightarrow> bool" where
  "Contains [] sub = (sub = [])"
| "Contains (c # s) sub = (HasPrefix (c # s) sub \<or> Contains s sub)"

text \<open>
  \<^verbatim>\<open>strings.TrimSpace(line) == ""\<close>: the line consists of white space only. TrimSpace
  removes the runes of \<^verbatim>\<open>unicode.IsSpace\<close>: the six ASCII ones (with vertical tab), and
  U+0085, U+00A0, U+1680, U+2000..U+200A, U+2028, U+2029, U+202F, U+205F, U+3000,
  each given here by its UTF-8 bytes. A byte sequence that is not the encoding of one
  of them decodes to another rune (or to the error rune), which is not white space.
\<close>

definition asciiSpace :: "char \<Rightarrow> bool" where
  "asciiSpace c = (c = CHR 0x09 \<or> c = CHR 0x0A \<or> c = CHR 0x0B \<or> c = CHR 0x0C \<or> c = CHR 0x0D
     \<or> c = CHR '' '')"

fun TrimSpace_empty :: "string \<Rightarrow> bool" where
  "TrimSpace_empty [] = True"
| "TrimSpace_empty [c] = asciiSpace c"
| "TrimSpace_empty [c, d] =
     (if asciiSpace c then TrimSpace_empty [d]
      else c = CHR 0xC2 \<and> (d = CHR 0x85 \<or> d = CHR 0xA0))"
| "TrimSpace_empty (c # d # e # s) =
     (if asciiSpace c then TrimSpace_empty (d # e # s)
      else if c = CHR 0xC2 \<and> (d = CHR 0x85 \<or> d = CHR 0xA0) then TrimSpace_empty (e # s)
      else if c = CHR 0xE1 \<and> d = CHR 0x9A \<and> e = CHR 0x80 then TrimSpace_empty s
      else if c = CHR 0xE2 \<and> d = CHR 0x80 \<and>
              (of_char e \<in> {0x80 .. (0x8A :: nat)} \<or> e = CHR 0xA8 \<or> e = CHR 0xA9 \<or> e = CHR 0xAF)
           then TrimSpace_empty s
      else if c = CHR 0xE2 \<and> d = CHR 0x81 \<and> e = CHR 0x9F then TrimSpace_empty s
      else if c = CHR 0xE3 \<and> d = CHR 0x80 \<and> e = CHR 0x80 then TrimSpace_empty s
      else False)"

text \<open>
  \<^verbatim>\<open>drawerStart = ^\s*:LOGBOOK:\s*$\<close>, \<^verbatim>\<open>drawerEnd = ^\s*:END:\s*$\<close>,
  \<^verbatim>\<open>codeBlockStart = ^\s*#\+BEGIN_SRC\<close>, \<^verbatim>\<open>codeBlockEnd = ^\s*#\+END_SRC\<close>
  (\<^verbatim>\<open>MatchString\<close>).
\<close>

definition drawerStart :: "string \<Rightarrow> bool" where
  "drawerStart line =
     (let r = dropWhile reSpace line
      in HasPrefix r '':LOGBOOK:'' \<and> list_all reSpace (drop 9 r))"

definition drawerEnd :: "string \<Rightarrow> bool" where
  "drawerEnd line =
     (let r = dropWhile reSpace line
      in HasPrefix r '':END:'' \<and> list_all reSpace (drop 5 r))"

definition codeBlockStart :: "string \<Rightarrow> bool" where
  "codeBlockStart line = HasPrefix (dropWhile reSpace line) ''#+BEGIN_SRC''"

definition codeBlockEnd :: "string \<Rightarrow> bool" where
  "codeBlockEnd line = HasPrefix (dropWhile reSpace line) ''#+END_SRC''"

text \<open>
  \<^verbatim>\<open>headingPattern = ^(\*+)\s+(?:(TODO|PROG|BLOCK|DONE)\s+)?(.+)$\<close>
  (\<^verbatim>\<open>FindStringSubmatch\<close>): the result is the three groups. Go's matching is
  leftmost-first, the match a backtracking matcher finds first: the stars are all the
  leading stars (a white space must follow), the first \<^verbatim>\<open>\s+\<close> is as long as it can
  be, the state group is taken when it can be, and its \<^verbatim>\<open>\s+\<close> gives back its last
  character when nothing else is left for the title. A group that takes no part in the
  match is the empty string. The dot matches no newline.
\<close>

definition stateToken :: "string \<Rightarrow> (string \<times> string) option" where
  "stateToken s =
     (if HasPrefix s ''TODO'' then Some (''TODO'', drop 4 s)
      else if HasPrefix s ''PROG'' then Some (''PROG'', drop 4 s)
      else if HasPrefix s ''BLOCK'' then Some (''BLOCK'', drop 5 s)
      else if HasPrefix s ''DONE'' then Some (''DONE'', drop 4 s)
      else None)"

definition headingGroups :: "string \<Rightarrow> (string \<times> string \<times> string) option" where
  "headingGroups line =
     (let stars = takeWhile (\<lambda>c. c = CHR ''*'') line;
          r1 = dropWhile (\<lambda>c. c = CHR ''*'') line;
          ws = takeWhile reSpace r1;
          r2 = dropWhile reSpace r1
      in if stars = [] \<or> ws = [] then None
         else if r2 = [] then (if 2 \<le> length ws then Some (stars, [], [last ws]) else None)
         else (case stateToken r2 of
                 None \<Rightarrow> Some (stars, [], r2)
               | Some (kw, r3) \<Rightarrow>
                   (let ws2 = takeWhile reSpace r3; r4 = dropWhile reSpace r3
                    in if ws2 = [] then Some (stars, [], r2)
                       else if r4 \<noteq> [] then Some (stars, kw, r4)
                       else if 2 \<le> length ws2 then Some (stars, kw, [last ws2])
                       else Some (stars, [], r2))))"

definition headingPattern :: "string \<Rightarrow> (string \<times> string \<times> string) option" where
  "headingPattern line =
     (case headingGroups line of
        None \<Rightarrow> None
      | Some (stars, kw, title) \<Rightarrow>
          if CHR 0x0A \<in> set title then None else Some (stars, kw, title))"

text \<open>
  \<^verbatim>\<open>scheduledPattern = SCHEDULED:\s*<([^>]+)>\<close> and
  \<^verbatim>\<open>deadlinePattern = DEADLINE:\s*<([^>]+)>\<close> are not anchored: the match is the one
  at the leftmost position that has one. \<open>bracketed opn cls s\<close> matches
  \<^verbatim>\<open>opn([^cls]+)cls\<close> at the head of \<open>s\<close> and gives the group and the rest.
\<close>

definition bracketed :: "char \<Rightarrow> char \<Rightarrow> string \<Rightarrow> (string \<times> string) option" where
  "bracketed opn cls s =
     (case s of
        [] \<Rightarrow> None
      | c # r \<Rightarrow>
          (let cap = takeWhile (\<lambda>x. x \<noteq> cls) r; rest = dropWhile (\<lambda>x. x \<noteq> cls) r
           in if c = opn \<and> cap \<noteq> [] \<and> rest \<noteq> [] then Some (cap, tl rest) else None))"

definition directiveAt :: "string \<Rightarrow> string \<Rightarrow> string option" where
  "directiveAt kw s =
     (if HasPrefix s kw
      then map_option fst (bracketed (CHR ''<'') (CHR ''>'') (dropWhile reSpace (drop (length kw) s)))
      else None)"

fun findDirective :: "string \<Rightarrow> string \<Rightarrow> string option" where
  "findDirective kw [] = None"
| "findDirective kw (c # s) =
     (case directiveAt kw (c # s) of
        Some cap \<Rightarrow> Some cap
      | None \<Rightarrow> findDirective kw s)"

definition scheduledPattern :: "string \<Rightarrow> string option" where
  "scheduledPattern line = findDirective ''SCHEDULED:'' line"

definition deadlinePattern :: "string \<Rightarrow> string option" where
  "deadlinePattern line = findDirective ''DEADLINE:'' line"

text \<open>
  \<^verbatim>\<open>clockPattern = CLOCK:\s*\[([^\]]+)\](?:--\[([^\]]+)\])?\<close>: the two groups, the
  second the empty string when the optional part takes no part in the match.
\<close>

definition clockAt :: "string \<Rightarrow> (string \<times> string) option" where
  "clockAt s =
     (if HasPrefix s ''CLOCK:''
      then (case bracketed (CHR ''['') (CHR '']'') (dropWhile reSpace (drop 6 s)) of
              None \<Rightarrow> None
            | Some (start, r) \<Rightarrow>
                if HasPrefix r ''--''
                then (case bracketed (CHR ''['') (CHR '']'') (drop 2 r) of
                        None \<Rightarrow> Some (start, [])
                      | Some (end, _) \<Rightarrow> Some (start, end))
                else Some (start, []))
      else None)"

fun clockPattern :: "string \<Rightarrow> (string \<times> string) option" where
  "clockPattern [] = None"
| "clockPattern (c # s) =
     (case clockAt (c # s) of
        Some m \<Rightarrow> Some m
      | None \<Rightarrow> clockPattern s)"

section \<open>Timestamps\<close>

text \<open>
  \<^verbatim>\<open>time.Time\<close>, \<^verbatim>\<open>time.Parse\<close> and \<^verbatim>\<open>Time.Format\<close> belong to Go's standard library,
  not to this repository. They are modelled from the library's documented behaviour
  for the layouts that \<^verbatim>\<open>org.go\<close> uses: a time is its calendar fields (every time
  parsed here is in UTC), a layout is the list of its elements.
\<close>

record Time =
  tYear :: nat
  tMonth :: nat
  tDay :: nat
  tHour :: nat
  tMinute :: nat
  tSecond :: nat
  tNano :: nat

datatype chunk =
  stdLongYear | stdZeroMonth | stdZeroDay | stdWeekDay | stdHour | stdZeroMinute
  | stdZeroSecond | Lit string

definition isDigit :: "string \<Rightarrow> nat \<Rightarrow> bool" where
  "isDigit s i = (i < length s \<and> 48 \<le> (of_char (s ! i) :: nat) \<and> (of_char (s ! i) :: nat) \<le> 57)"

definition digitVal :: "char \<Rightarrow> nat" where
  "digitVal c = of_char c - 48"

definition getnum :: "string \<Rightarrow> bool \<Rightarrow> (nat \<times> string) option" where
  "getnum s fixed =
     (if \<not> isDigit s 0 then None
      else if \<not> isDigit s 1 then (if fixed then None else Some (digitVal (s ! 0), drop 1 s))
      else Some (digitVal (s ! 0) * 10 + digitVal (s ! 1), drop 2 s))"

text \<open>
  \<^verbatim>\<open>match\<close> of the time package compares ASCII letters without regard to case:
  bytes that differ are compared after setting bit 5, and must then be letters.
\<close>

definition setBit5 :: "char \<Rightarrow> nat" where
  "setBit5 c = (let n = (of_char c :: nat) in if (n div 32) mod 2 = 0 then n + 32 else n)"

definition matchChar :: "char \<Rightarrow> char \<Rightarrow> bool" where
  "matchChar c1 c2 =
     (c1 = c2 \<or> (setBit5 c1 = setBit5 c2 \<and> 97 \<le> setBit5 c1 \<and> setBit5 c1 \<le> 122))"

definition shortDayNames :: "string list" where
  "shortDayNames = [''Sun'', ''Mon'', ''Tue'', ''Wed'', ''Thu'', ''Fri'', ''Sat'']"

fun lookup_name :: "string list \<Rightarrow> string \<Rightarrow> string option" where
  "lookup_name [] val = None"
| "lookup_name (v # tab) val =
     (if length v \<le> length val \<and> list_all2 matchChar (take (length v) val) v
      then Some (drop (length v) val)
      else lookup_name tab val)"

text \<open>
  \<^verbatim>\<open>skip\<close> removes a literal piece of the layout from the value; a space of the
  layout stands for any run of spaces, also an empty one at the end of the value.
\<close>

definition cutspace :: "string \<Rightarrow> string" where
  "cutspace s = dropWhile (\<lambda>c. c = CHR '' '') s"

function skip :: "string \<Rightarrow> string \<Rightarrow> string option" where
  "skip val [] = Some val"
| "skip val (p # ps) =
     (if p = CHR '' ''
      then (if val \<noteq> [] \<and> hd val \<noteq> CHR '' '' then None else skip (cutspace val) (cutspace ps))
      else (case val of
              [] \<Rightarrow> None
            | v # vs \<Rightarrow> if v = p then skip vs ps else None))"
  by pat_completeness auto
termination
  by (relation "measure (\<lambda>(val, p). length p)")
     (auto simp: cutspace_def intro: le_imp_less_Suc length_dropWhile_le)

definition isLeap :: "nat \<Rightarrow> bool" where
  "isLeap y = (y mod 4 = 0 \<and> (y mod 100 \<noteq> 0 \<or> y mod 400 = 0))"

definition daysIn :: "nat \<Rightarrow> nat \<Rightarrow> nat" where
  "daysIn m y =
     (if m = 2 then (if isLeap y then 29 else 28)
      else if m = 4 \<or> m = 6 \<or> m = 9 \<or> m = 11 then 30 else 31)"

text \<open>
  One element of the layout, on the value that is left. A number out of its range
  is an error, as is a value that does not fit. After the seconds, a fraction of a
  second in the value (a period or comma and digits) is accepted though the layout has
  none; its first nine digits count.
\<close>

definition fracSeconds :: "string \<Rightarrow> nat \<times> string" where
  "fracSeconds val =
     (if 2 \<le> length val \<and> (val ! 0 = CHR ''.'' \<or> val ! 0 = CHR '','') \<and> isDigit val 1
      then (let ds = takeWhile (\<lambda>c. 48 \<le> (of_char c :: nat) \<and> (of_char c :: nat) \<le> 57) (tl val);
                used = take 9 ds
            in (foldl (\<lambda>n c. n * 10 + digitVal c) 0 used * 10 ^ (9 - length used),
                drop (length ds) (tl val)))
      else (0, val))"

fun parseChunk :: "chunk \<Rightarrow> Time \<times> string \<Rightarrow> (Time \<times> string) option" where
  "parseChunk (Lit p) (t, val) = map_option (\<lambda>v. (t, v)) (skip val p)"
| "parseChunk stdLongYear (t, val) =
     (if length val < 4 \<or> \<not> (isDigit val 0 \<and> isDigit val 1 \<and> isDigit val 2 \<and> isDigit val 3)
      then None
      else Some (t\<lparr>tYear := foldl (\<lambda>n c. n * 10 + digitVal c) 0 (take 4 val)\<rparr>, drop 4 val))"
| "parseChunk stdZeroMonth (t, val) =
     (case getnum val True of
        None \<Rightarrow> None
      | Some (m, v) \<Rightarrow> if m = 0 \<or> 12 < m then None else Some (t\<lparr>tMonth := m\<rparr>, v))"
| "parseChunk stdZeroDay (t, val) =
     (case getnum val True of
        None \<Rightarrow> None
      | Some (d, v) \<Rightarrow> Some (t\<lparr>tDay := d\<rparr>, v))"
| "parseChunk stdWeekDay (t, val) = map_option (\<lambda>v. (t, v)) (lookup_name shortDayNames val)"
| "parseChunk stdHour (t, val) =
     (case getnum val False of
        None \<Rightarrow> None
      | Some (h, v) \<Rightarrow> if 24 \<le> h then None else Some (t\<lparr>tHour := h\<rparr>, v))"
| "parseChunk stdZeroMinute (t, val) =
     (case getnum val True of
        None \<Rightarrow> None
      | Some (m, v) \<Rightarrow> if 60 \<le> m then None else Some (t\<lparr>tMinute := m\<rparr>, v))"
| "parseChunk stdZeroSecond (t, val) =
     (case getnum val True of
        None \<Rightarrow> None
      | Some (s, v) \<Rightarrow>
          if 60 \<le> s then None
          else (let (ns, v') = fracSeconds v in Some (t\<lparr>tSecond := s, tNano := ns\<rparr>, v')))"

fun parseChunks :: "chunk list \<Rightarrow> Time \<times> string \<Rightarrow> Time option" where
  "parseChunks [] (t, val) =
     (if val \<noteq> [] then None
      else if tDay t < 1 \<or> daysIn (tMonth t) (tYear t) < tDay t then None
      else Some t)"
| "parseChunks (c # cs) tv =
     (case parseChunk c tv of
        None \<Rightarrow> None
      | Some tv' \<Rightarrow> parseChunks cs tv')"

definition time_Parse :: "chunk list \<Rightarrow> string \<Rightarrow> Time option" where
  "time_Parse layout val =
     parseChunks layout
       (\<lparr>tYear = 0, tMonth = 1, tDay = 1, tHour = 0, tMinute = 0, tSecond = 0, tNano = 0\<rparr>, val)"

text \<open>The layouts of \<^verbatim>\<open>org.go\<close>.\<close>

definition layout_date :: "chunk list" where
  \<comment> \<open>\<^verbatim>\<open>"2006-01-02"\<close>\<close>
  "layout_date = [stdLongYear, Lit ''-'', stdZeroMonth, Lit ''-'', stdZeroDay]"

definition layout_date_day :: "chunk list" where
  \<comment> \<open>\<^verbatim>\<open>"2006-01-02 Mon"\<close>\<close>
  "layout_date_day = layout_date @ [Lit '' '', stdWeekDay]"

definition layout_date_day_time :: "chunk list" where
  \<comment> \<open>\<^verbatim>\<open>"2006-01-02 Mon 15:04"\<close>\<close>
  "layout_date_day_time = layout_date_day @ [Lit '' '', stdHour, Lit '':'', stdZeroMinute]"

definition layout_date_day_time_sec :: "chunk list" where
  \<comment> \<open>\<^verbatim>\<open>"2006-01-02 Mon 15:04:05"\<close>\<close>
  "layout_date_day_time_sec = layout_date_day_time @ [Lit '':'', stdZeroSecond]"

text \<open>\<^verbatim>\<open>parseOrgDate\<close> and \<^verbatim>\<open>parseClockTimestamp\<close>: the first layout that parses.\<close>

fun firstParse :: "chunk list list \<Rightarrow> string \<Rightarrow> Time option" where
  "firstParse [] s = None"
| "firstParse (format # formats) s =
     (case time_Parse format s of
        Some t \<Rightarrow> Some t
      | None \<Rightarrow> firstParse formats s)"

definition parseOrgDate :: "string \<Rightarrow> Time option" where
  "parseOrgDate dateStr =
     firstParse [layout_date_day_time, layout_date_day, layout_date] dateStr"

definition parseClockTimestamp :: "string \<Rightarrow> Time option" where
  "parseClockTimestamp timestampStr =
     firstParse [layout_date_day_time, layout_date_day_time_sec] timestampStr"

text \<open>
  \<^verbatim>\<open>Time.Format\<close>: numbers in decimal, padded with zeros to their width; the day of
  the week is computed from the date (1 January of the year 0 is a Saturday in the
  Gregorian calendar).
\<close>

fun decimal :: "nat \<Rightarrow> string" where
  "decimal n = (if n < 10 then [char_of (48 + n)] else decimal (n div 10) @ [char_of (48 + n mod 10)])"

definition appendInt :: "nat \<Rightarrow> nat \<Rightarrow> string" where
  "appendInt x width = replicate (width - length (decimal x)) (CHR ''0'') @ decimal x"

definition daysBefore :: "nat \<Rightarrow> nat \<Rightarrow> nat" where
  "daysBefore m y = sum_list (map (\<lambda>k. daysIn k y) [1 ..< m])"

definition weekday :: "Time \<Rightarrow> nat" where
  "weekday t =
     (let y = tYear t
      in (365 * y + (y + 3) div 4 - (y + 99) div 100 + (y + 399) div 400
          + daysBefore (tMonth t) y + (tDay t - 1) + 6) mod 7)"

definition formatOrgDate :: "Time \<Rightarrow> string" where
  "formatOrgDate t =
     appendInt (tYear t) 4 @ ''-'' @ appendInt (tMonth t) 2 @ ''-'' @ appendInt (tDay t) 2
     @ '' '' @ shortDayNames ! weekday t"

definition formatClockTimestamp :: "Time \<Rightarrow> string" where
  "formatClockTimestamp t =
     formatOrgDate t @ '' '' @ appendInt (tHour t) 2 @ '':'' @ appendInt (tMinute t) 2"

section \<open>The document model\<close>

text \<open>
  \<^verbatim>\<open>TodoState\<close> is a Go string type; the five constants are the states the program
  knows.
\<close>

type_synonym TodoState = string

definition StateTODO :: TodoState where "StateTODO = ''TODO''"
definition StatePROG :: TodoState where "StatePROG = ''PROG''"
definition StateBLOCK :: TodoState where "StateBLOCK = ''BLOCK''"
definition StateDONE :: TodoState where "StateDONE = ''DONE''"
definition StateNone :: TodoState where "StateNone = []"

record ClockEntry =
  Start :: Time
  End :: "Time option"

text \<open>
  The struct \<^verbatim>\<open>Item\<close>. A record cannot contain itself, so the fields other than
  \<^verbatim>\<open>Children\<close> are the record \<open>ItemData\<close> and an item is this record with the list
  of its children. \<open>ref\<close> is the address of the item: every \<^verbatim>\<open>&Item{...}\<close> of the
  program allocates a new one, and \<^verbatim>\<open>==\<close> on two \<^verbatim>\<open>*Item\<close> compares addresses.
  \<^verbatim>\<open>Level\<close> is a Go \<^verbatim>\<open>int\<close> that only ever holds a length or a level plus one.
\<close>

record ItemData =
  ref :: nat
  Level :: nat
  State :: TodoState
  Title :: string
  Scheduled :: "Time option"
  Deadline :: "Time option"
  Notes :: "string list"
  Folded :: bool
  ClockEntries :: "ClockEntry list"

datatype Item = Item (dat: ItemData) (Children: "Item list")

record OrgFile =
  Path :: string
  Items :: "Item list"

text \<open>An assignment to fields of \<^verbatim>\<open>*item\<close> other than its children, and \<^verbatim>\<open>append\<close> to its children.\<close>

fun upd :: "(ItemData \<Rightarrow> ItemData) \<Rightarrow> Item \<Rightarrow> Item" where
  "upd f (Item d cs) = Item (f d) cs"

fun addChild :: "Item \<Rightarrow> Item \<Rightarrow> Item" where
  "addChild c (Item d cs) = Item d (cs @ [c])"

section \<open>The parser\<close>

text \<open>
  The parser holds pointers into the tree that it builds (\<^verbatim>\<open>currentItem\<close>, the
  entries of \<^verbatim>\<open>itemStack\<close>) and writes through them. The tree under construction is
  the store, and a pointer is the position of its item in the tree: the index of a root
  in \<^verbatim>\<open>orgFile.Items\<close>, followed by the indices of the children on the way down. The
  parser only ever appends to a list of items, so the position of an item never changes.
  \<open>deref\<close> reads the item at a position, \<open>modify\<close> writes it.
\<close>

type_synonym ptr = "nat list"

fun deref :: "Item list \<Rightarrow> ptr \<Rightarrow> Item option" where
  "deref its [] = None"
| "deref its (i # p) =
     (if i < length its
      then (if p = [] then Some (its ! i) else deref (Children (its ! i)) p)
      else None)"

fun modify :: "Item list \<Rightarrow> ptr \<Rightarrow> (Item \<Rightarrow> Item) \<Rightarrow> Item list" where
  "modify its [] f = its"
| "modify its (i # p) f =
     (if i < length its
      then its[i := (if p = [] then f (its ! i)
                     else Item (dat (its ! i)) (modify (Children (its ! i)) p f))]
      else its)"

text \<open>
  The variables of \<^verbatim>\<open>ParseOrgFile\<close>. The head of \<open>itemStack\<close> is the top of the stack
  (the last element of the Go slice). \<open>allocated\<close> counts the items allocated so far
  and is the address of the next one.
\<close>

record parser =
  orgFile :: OrgFile
  currentItem :: "ptr option"
  itemStack :: "ptr list"
  inCodeBlock :: bool
  inLogbookDrawer :: bool
  allocated :: nat

definition setItems :: "Item list \<Rightarrow> parser \<Rightarrow> parser" where
  "setItems its s = s\<lparr>orgFile := (orgFile s)\<lparr>Items := its\<rparr>\<rparr>"

text \<open>\<^verbatim>\<open>if currentItem != nil { currentItem.Notes = append(currentItem.Notes, line) }\<close>\<close>

definition appendNote :: "string \<Rightarrow> ItemData \<Rightarrow> ItemData" where
  "appendNote line d = d\<lparr>Notes := Notes d @ [line]\<rparr>"

definition noteToCurrent :: "string \<Rightarrow> parser \<Rightarrow> parser" where
  "noteToCurrent line s =
     (case currentItem s of
        None \<Rightarrow> s
      | Some p \<Rightarrow> setItems (modify (Items (orgFile s)) p (upd (appendNote line))) s)"

text \<open>The content branch (lines 153 to 188), as the assignments it makes to \<^verbatim>\<open>*currentItem\<close>.\<close>

definition setScheduled :: "string \<Rightarrow> ItemData \<Rightarrow> ItemData" where
  "setScheduled line d =
     (case scheduledPattern line of
        None \<Rightarrow> d
      | Some m \<Rightarrow> (case parseOrgDate m of None \<Rightarrow> d | Some t \<Rightarrow> d\<lparr>Scheduled := Some t\<rparr>))"

definition setDeadline :: "string \<Rightarrow> ItemData \<Rightarrow> ItemData" where
  "setDeadline line d =
     (case deadlinePattern line of
        None \<Rightarrow> d
      | Some m \<Rightarrow> (case parseOrgDate m of None \<Rightarrow> d | Some t \<Rightarrow> d\<lparr>Deadline := Some t\<rparr>))"

definition addClock :: "string \<Rightarrow> ItemData \<Rightarrow> ItemData" where
  "addClock line d =
     (case clockPattern line of
        None \<Rightarrow> d
      | Some (m1, m2) \<Rightarrow>
          (case parseClockTimestamp m1 of
             None \<Rightarrow> d
           | Some startTime \<Rightarrow>
               (let entry = \<lparr>Start = startTime,
                              End = (if m2 \<noteq> [] then parseClockTimestamp m2 else None)\<rparr>
                in d\<lparr>ClockEntries := ClockEntries d @ [entry]\<rparr>)))"

definition keepNote :: "string \<Rightarrow> ItemData \<Rightarrow> ItemData" where
  "keepNote line d =
     (if \<not> TrimSpace_empty line \<or> 0 < length (Notes d) then appendNote line d else d)"

definition content :: "string \<Rightarrow> ItemData \<Rightarrow> ItemData" where
  "content line d = keepNote line (addClock line (setDeadline line (setScheduled line d)))"

text \<open>
  The heading branch (lines 124 to 152). \<open>popStack\<close> is the loop that pops the entries
  whose level is at least the new one. A position that holds no item cannot arise
  (\<open>parser_inv\<close> below); the model leaves the stack, or the state, as it is there.
\<close>

fun popStack :: "Item list \<Rightarrow> nat \<Rightarrow> ptr list \<Rightarrow> ptr list" where
  "popStack its level [] = []"
| "popStack its level (p # st) =
     (case deref its p of
        None \<Rightarrow> p # st
      | Some x \<Rightarrow> if level \<le> Level (dat x) then popStack its level st else p # st)"

definition newItem :: "nat \<Rightarrow> string \<times> string \<times> string \<Rightarrow> Item" where
  "newItem a m =
     (case m of (m1, m2, m3) \<Rightarrow>
        Item \<lparr>ref = a, Level = length m1, State = m2, Title = m3, Scheduled = None,
              Deadline = None, Notes = [], Folded = False, ClockEntries = []\<rparr> [])"

definition heading :: "string \<times> string \<times> string \<Rightarrow> parser \<Rightarrow> parser" where
  "heading m s =
     (let item = newItem (allocated s) m;
          its = Items (orgFile s);
          st = popStack its (Level (dat item)) (itemStack s)
      in (case st of
            [] \<Rightarrow>
              (setItems (its @ [item]) s)
                \<lparr>itemStack := [[length its]], currentItem := Some [length its],
                 allocated := Suc (allocated s)\<rparr>
          | parent # _ \<Rightarrow>
              (case deref its parent of
                 None \<Rightarrow> s
               | Some x \<Rightarrow>
                   (setItems (modify its parent (addChild item)) s)
                     \<lparr>itemStack := (parent @ [length (Children x)]) # st,
                      currentItem := Some (parent @ [length (Children x)]),
                      allocated := Suc (allocated s)\<rparr>)))"

text \<open>The body of the loop over the lines.\<close>

definition step :: "parser \<Rightarrow> string \<Rightarrow> parser" where
  "step s line =
     (if drawerStart line then noteToCurrent line (s\<lparr>inLogbookDrawer := True\<rparr>)
      else if drawerEnd line \<and> inLogbookDrawer s then noteToCurrent line (s\<lparr>inLogbookDrawer := False\<rparr>)
      else if codeBlockStart line then noteToCurrent line (s\<lparr>inCodeBlock := True\<rparr>)
      else if codeBlockEnd line then noteToCurrent line (s\<lparr>inCodeBlock := False\<rparr>)
      else if inCodeBlock s then noteToCurrent line s
      else (case headingPattern line of
              Some m \<Rightarrow> heading m s
            | None \<Rightarrow>
                (case currentItem s of
                   None \<Rightarrow> s
                 | Some p \<Rightarrow> setItems (modify (Items (orgFile s)) p (upd (content line))) s)))"

text \<open>
  \<^verbatim>\<open>bufio.Scanner\<close> with its default split function \<^verbatim>\<open>ScanLines\<close>: the lines end at
  a newline, a last line without one counts when it is not empty, and a carriage return
  at the end of a line is dropped. A line that does not fit the scanner's buffer of
  \<^verbatim>\<open>MaxScanTokenSize\<close> bytes ends the scan with \<^verbatim>\<open>ErrTooLong\<close>.
\<close>

fun scanLines :: "string \<Rightarrow> string \<Rightarrow> string list" where
  "scanLines cur [] = (if cur = [] then [] else [cur])"
| "scanLines cur (c # cs) =
     (if c = CHR 0x0A then cur # scanLines [] cs else scanLines (cur @ [c]) cs)"

definition dropCR :: "string \<Rightarrow> string" where
  "dropCR l = (if l \<noteq> [] \<and> last l = CHR 0x0D then butlast l else l)"

definition MaxScanTokenSize :: nat where
  "MaxScanTokenSize = 64 * 1024"

text \<open>
  What \<^verbatim>\<open>os.Open(path)\<close> finds: no file, a file that cannot be opened, or a file with
  its bytes.
\<close>

datatype os_file = NotExist | Unreadable | Contents string

datatype error = ErrOpen | ErrTooLong

definition initial :: "string \<Rightarrow> parser" where
  "initial path =
     \<lparr>orgFile = \<lparr>Path = path, Items = []\<rparr>, currentItem = None, itemStack = [],
      inCodeBlock = False, inLogbookDrawer = False, allocated = 0\<rparr>"

definition ParseOrgFile :: "string \<Rightarrow> os_file \<Rightarrow> error + OrgFile" where
  "ParseOrgFile path f =
     (case f of
        NotExist \<Rightarrow> Inr \<lparr>Path = path, Items = []\<rparr>
      | Unreadable \<Rightarrow> Inl ErrOpen
      | Contents text \<Rightarrow>
          (let raw = scanLines [] text
           in if list_ex (\<lambda>l. MaxScanTokenSize \<le> length l) raw then Inl ErrTooLong
              else Inr (orgFile (foldl step (initial path) (map dropCR raw)))))"

section \<open>The serializer\<close>

text \<open>
  \<^verbatim>\<open>writeItem\<close> writes to a \<^verbatim>\<open>bufio.Writer\<close>, modelled by the text written so far.
  \<^verbatim>\<open>WriteString\<close> reports an error only when the file below the writer fails; the
  model is of the run on which it does not.
\<close>

type_synonym writer = string

definition WriteString :: "writer \<Rightarrow> string \<Rightarrow> writer" where
  "WriteString w s = w @ s"

definition noteFlags :: "string list \<Rightarrow> bool \<times> bool \<times> bool" where
  "noteFlags notes =
     foldl (\<lambda>(hasScheduled, hasDeadline, hasLogbook) note.
              (if Contains note ''SCHEDULED:'' then True else hasScheduled,
               if Contains note ''DEADLINE:'' then True else hasDeadline,
               if Contains note '':LOGBOOK:'' then True else hasLogbook))
           (False, False, False) notes"

definition writeClock :: "writer \<Rightarrow> ClockEntry \<Rightarrow> writer" where
  "writeClock w entry =
     (let clockLine = ''CLOCK: ['' @ formatClockTimestamp (Start entry) @ '']'';
          clockLine = (case End entry of
                         None \<Rightarrow> clockLine
                       | Some e \<Rightarrow> clockLine @ ''--['' @ formatClockTimestamp e @ '']'');
          clockLine = clockLine @ [CHR 0x0A]
      in WriteString w clockLine)"

definition writeHead :: "writer \<Rightarrow> ItemData \<Rightarrow> writer" where
  "writeHead w d =
     (let stars = replicate (Level d) (CHR ''*'');
          line = stars;
          line = (if State d \<noteq> StateNone then line @ '' '' @ State d else line);
          line = line @ '' '' @ Title d @ [CHR 0x0A];
          w = WriteString w line;
          (hasScheduled, hasDeadline, hasLogbook) = noteFlags (Notes d);
          w = (case Scheduled d of
                 None \<Rightarrow> w
               | Some t \<Rightarrow>
                   if \<not> hasScheduled
                   then WriteString w (''SCHEDULED: <'' @ formatOrgDate t @ ''>'' @ [CHR 0x0A])
                   else w);
          w = (case Deadline d of
                 None \<Rightarrow> w
               | Some t \<Rightarrow>
                   if \<not> hasDeadline
                   then WriteString w (''DEADLINE: <'' @ formatOrgDate t @ ''>'' @ [CHR 0x0A])
                   else w);
          w = (if 0 < length (ClockEntries d) \<and> \<not> hasLogbook
               then WriteString
                      (foldl writeClock (WriteString w ('':LOGBOOK:'' @ [CHR 0x0A])) (ClockEntries d))
                      ('':END:'' @ [CHR 0x0A])
               else w)
      in foldl (\<lambda>w note. WriteString w (note @ [CHR 0x0A])) w (Notes d))"

fun writeItem :: "writer \<Rightarrow> Item \<Rightarrow> writer" where
  "writeItem w (Item d cs) = foldl writeItem (writeHead w d) cs"

text \<open>\<^verbatim>\<open>Save\<close>, as the text it leaves in the file (when the file can be created and written).\<close>

definition Save :: "OrgFile \<Rightarrow> string" where
  "Save orgf = foldl writeItem [] (Items orgf)"

section \<open>Operations on items\<close>

text \<open>
  The methods of \<^verbatim>\<open>*Item\<close> assign to the item they are called on; the model gives
  the item after the call, with the result of the call when it has one. The clock is
  read with \<^verbatim>\<open>time.Now()\<close>, here the argument \<open>now\<close>.
\<close>

definition CycleState :: "Item \<Rightarrow> Item" where
  "CycleState item =
     (if State (dat item) = StateNone then upd (\<lambda>d. d\<lparr>State := StateTODO\<rparr>) item
      else if State (dat item) = StateTODO then upd (\<lambda>d. d\<lparr>State := StatePROG\<rparr>) item
      else if State (dat item) = StatePROG then upd (\<lambda>d. d\<lparr>State := StateBLOCK\<rparr>) item
      else if State (dat item) = StateBLOCK then upd (\<lambda>d. d\<lparr>State := StateDONE\<rparr>) item
      else if State (dat item) = StateDONE then upd (\<lambda>d. d\<lparr>State := StateNone\<rparr>) item
      else item)"

definition cycleStateBackward :: "Item \<Rightarrow> Item" where
  "cycleStateBackward item =
     (if State (dat item) = StateNone then upd (\<lambda>d. d\<lparr>State := StateDONE\<rparr>) item
      else if State (dat item) = StateTODO then upd (\<lambda>d. d\<lparr>State := StateNone\<rparr>) item
      else if State (dat item) = StatePROG then upd (\<lambda>d. d\<lparr>State := StateTODO\<rparr>) item
      else if State (dat item) = StateBLOCK then upd (\<lambda>d. d\<lparr>State := StatePROG\<rparr>) item
      else if State (dat item) = StateDONE then upd (\<lambda>d. d\<lparr>State := StateBLOCK\<rparr>) item
      else item)"

fun anyOpen :: "ClockEntry list \<Rightarrow> bool" where
  "anyOpen [] = False"
| "anyOpen (entry # es) = (if End entry = None then True else anyOpen es)"

definition IsClockedIn :: "Item \<Rightarrow> bool" where
  "IsClockedIn item = anyOpen (ClockEntries (dat item))"

definition ClockIn :: "Time \<Rightarrow> Item \<Rightarrow> Item \<times> bool" where
  "ClockIn now item =
     (if IsClockedIn item then (item, False)
      else (let entry = \<lparr>Start = now, End = None\<rparr>
            in (upd (\<lambda>d. d\<lparr>ClockEntries := ClockEntries d @ [entry]\<rparr>) item, True)))"

text \<open>
  The loop of \<^verbatim>\<open>ClockOut\<close> runs \<^verbatim>\<open>i\<close> from the last index down to 0; \<open>closeFrom n\<close>
  is the loop with \<open>n\<close> indices left, at \<^verbatim>\<open>i = n - 1\<close>.
\<close>

fun closeFrom :: "nat \<Rightarrow> Time \<Rightarrow> ClockEntry list \<Rightarrow> ClockEntry list \<times> bool" where
  "closeFrom 0 now es = (es, False)"
| "closeFrom (Suc i) now es =
     (if End (es ! i) = None then (es[i := (es ! i)\<lparr>End := Some now\<rparr>], True)
      else closeFrom i now es)"

definition ClockOut :: "Time \<Rightarrow> Item \<Rightarrow> Item \<times> bool" where
  "ClockOut now item =
     (case closeFrom (length (ClockEntries (dat item))) now (ClockEntries (dat item)) of
        (es, r) \<Rightarrow> (upd (\<lambda>d. d\<lparr>ClockEntries := es\<rparr>) item, r))"

text \<open>\<^verbatim>\<open>GetAllItems\<close>: the items in document order, without the children of a folded item.\<close>

fun flatten :: "Item \<Rightarrow> Item list" where
  "flatten (Item d cs) = Item d cs # (if \<not> Folded d then concat (map flatten cs) else [])"

definition GetAllItems :: "OrgFile \<Rightarrow> Item list" where
  "GetAllItems orgf = concat (map flatten (Items orgf))"

section \<open>The operations of the user interface on the tree\<close>

text \<open>
  The fields of the struct \<^verbatim>\<open>model\<close> that the operations below read or write (the
  widgets of the terminal library and the expiry time of the status are left out). A
  \<^verbatim>\<open>*Item\<close> held by the model is the address of the item, \<open>None\<close> for \<^verbatim>\<open>nil\<close>.
  The field \<^verbatim>\<open>orgFile\<close> is called \<open>document\<close> here, the name \<open>orgFile\<close> being the
  parser's variable.
\<close>

datatype viewMode =
  modeList | modeAgenda | modeEdit | modeConfirmDelete | modeCapture | modeAddSubTask
  | modeSetDeadline

record model =
  document :: OrgFile
  cursor :: int
  mode :: viewMode
  statusMsg :: string
  editingItem :: "nat option"
  itemToDelete :: "nat option"
  reorderMode :: bool

definition setStatus :: "string \<Rightarrow> model \<Rightarrow> model" where
  "setStatus msg m = m\<lparr>statusMsg := msg\<rparr>"

text \<open>\<^verbatim>\<open>deleteItem\<close> with its local function \<^verbatim>\<open>removeFromList\<close>.\<close>

fun removeFromList :: "Item list \<Rightarrow> nat option \<Rightarrow> Item list" where
  "removeFromList [] target = []"
| "removeFromList (Item d cs # items) target =
     (if Some (ref d) = target then removeFromList items target
      else Item d (removeFromList cs target) # removeFromList items target)"

definition deleteItem :: "nat option \<Rightarrow> model \<Rightarrow> model" where
  "deleteItem item m =
     m\<lparr>document := (document m)\<lparr>Items := removeFromList (Items (document m)) item\<rparr>\<rparr>"

text \<open>
  \<^verbatim>\<open>getVisibleItems\<close>. The agenda lists the items scheduled or due before the end
  of the week, which depends on the clock; \<open>soon t\<close> stands for
  \<^verbatim>\<open>t.Before(endOfWeek)\<close>.
\<close>

fun agendaOf :: "(Time \<Rightarrow> bool) \<Rightarrow> Item \<Rightarrow> Item list" where
  "agendaOf soon (Item d cs) =
     (case Scheduled d of None \<Rightarrow> [] | Some t \<Rightarrow> if soon t then [Item d cs] else [])
     @ (case Deadline d of None \<Rightarrow> [] | Some t \<Rightarrow> if soon t then [Item d cs] else [])
     @ concat (map (agendaOf soon) cs)"

definition getAgendaItems :: "(Time \<Rightarrow> bool) \<Rightarrow> model \<Rightarrow> Item list" where
  "getAgendaItems soon m = concat (map (agendaOf soon) (Items (document m)))"

definition getVisibleItems :: "(Time \<Rightarrow> bool) \<Rightarrow> model \<Rightarrow> Item list" where
  "getVisibleItems soon m =
     (if mode m = modeAgenda then getAgendaItems soon m else GetAllItems (document m))"

text \<open>
  \<^verbatim>\<open>updateConfirmDelete\<close>, the only caller of \<^verbatim>\<open>deleteItem\<close>, on a key (a message
  that is no key leaves the model as it is).
\<close>

definition updateConfirmDelete :: "(Time \<Rightarrow> bool) \<Rightarrow> string \<Rightarrow> model \<Rightarrow> model" where
  "updateConfirmDelete soon key m =
     (if key = ''y'' \<or> key = ''Y''
      then (let m = deleteItem (itemToDelete m) m;
                m = m\<lparr>mode := modeList\<rparr>;
                m = m\<lparr>itemToDelete := None\<rparr>;
                m = setStatus ''Item deleted'' m;
                items = getVisibleItems soon m
            in if int (length items) \<le> cursor m \<and> 0 < length items
               then m\<lparr>cursor := int (length items) - 1\<rparr> else m)
      else if key = ''n'' \<or> key = ''N'' \<or> key = ''esc''
      then setStatus ''Cancelled'' (m\<lparr>mode := modeList, itemToDelete := None\<rparr>)
      else m)"

text \<open>
  \<^verbatim>\<open>swapItems\<close> with its local function \<^verbatim>\<open>swapInList\<close>, which exchanges two
  elements of the list in place and tells whether it did. The loop looks at each
  pair of neighbours and then into the children of the first of them; after the loop
  come the children of the last element.
\<close>

fun swapInList :: "nat \<Rightarrow> nat \<Rightarrow> Item list \<Rightarrow> Item list \<times> bool" where
  "swapInList item1 item2 [] = ([], False)"
| "swapInList item1 item2 [Item d cs] =
     (case swapInList item1 item2 cs of (cs', r) \<Rightarrow> ([Item d cs'], r))"
| "swapInList item1 item2 (Item d cs # y # rest) =
     (if ref d = item1 \<and> ref (dat y) = item2 then (y # Item d cs # rest, True)
      else if ref d = item2 \<and> ref (dat y) = item1 then (y # Item d cs # rest, True)
      else (case swapInList item1 item2 cs of
              (cs', True) \<Rightarrow> (Item d cs' # y # rest, True)
            | (cs', False) \<Rightarrow>
                (case swapInList item1 item2 (y # rest) of
                   (items', r) \<Rightarrow> (Item d cs' # items', r))))"

definition swapItems :: "nat \<Rightarrow> nat \<Rightarrow> model \<Rightarrow> model" where
  "swapItems item1 item2 m =
     m\<lparr>document := (document m)\<lparr>Items := fst (swapInList item1 item2 (Items (document m)))\<rparr>\<rparr>"

text \<open>
  \<^verbatim>\<open>moveItemUp\<close> and \<^verbatim>\<open>moveItemDown\<close>. An index outside the list of visible items
  is a run-time panic.
\<close>

datatype panic = IndexOutOfRange

definition index :: "Item list \<Rightarrow> int \<Rightarrow> panic + Item" where
  "index items i = (if 0 \<le> i \<and> i < int (length items) then Inr (items ! nat i) else Inl IndexOutOfRange)"

definition moveItemUp :: "(Time \<Rightarrow> bool) \<Rightarrow> model \<Rightarrow> panic + model" where
  "moveItemUp soon m =
     (let items = getVisibleItems soon m
      in if length items = 0 \<or> cursor m = 0 then Inr m
         else (case index items (cursor m) of
                 Inl e \<Rightarrow> Inl e
               | Inr current \<Rightarrow>
                   (case index items (cursor m - 1) of
                      Inl e \<Rightarrow> Inl e
                    | Inr prevItem \<Rightarrow>
                        if Level (dat current) \<noteq> Level (dat prevItem)
                        then Inr (setStatus ''Cannot move across different levels'' m)
                        else (let m = swapItems (ref (dat current)) (ref (dat prevItem)) m;
                                  m = m\<lparr>cursor := cursor m - 1\<rparr>
                              in Inr (setStatus ''Item moved up'' m)))))"

definition moveItemDown :: "(Time \<Rightarrow> bool) \<Rightarrow> model \<Rightarrow> panic + model" where
  "moveItemDown soon m =
     (let items = getVisibleItems soon m
      in if length items = 0 \<or> int (length items) - 1 \<le> cursor m then Inr m
         else (case index items (cursor m) of
                 Inl e \<Rightarrow> Inl e
               | Inr current \<Rightarrow>
                   (case index items (cursor m + 1) of
                      Inl e \<Rightarrow> Inl e
                    | Inr nextItem \<Rightarrow>
                        if Level (dat current) \<noteq> Level (dat nextItem)
                        then Inr (setStatus ''Cannot move across different levels'' m)
                        else (let m = swapItems (ref (dat current)) (ref (dat nextItem)) m;
                                  m = m\<lparr>cursor := cursor m + 1\<rparr>
                              in Inr (setStatus ''Item moved down'' m)))))"

section \<open>The notions of the statements\<close>

text \<open>
  The definitions below belong to the statements proved about the program, not to the
  program: they say what is claimed of it.
\<close>

text \<open>
  \<open>hasOpen item\<close>: the item has a clock entry with no end. \<open>lastOpen es i\<close>: the entry
  at index \<open>i\<close> has no end and every later one has one, so it is the most recently
  appended open entry.
\<close>

definition hasOpen :: "Item \<Rightarrow> bool" where
  "hasOpen item = (\<exists>e \<in> set (ClockEntries (dat item)). End e = None)"

definition lastOpen :: "ClockEntry list \<Rightarrow> nat \<Rightarrow> bool" where
  "lastOpen es i =
     (i < length es \<and> End (es ! i) = None \<and> list_all (\<lambda>e. End e \<noteq> None) (drop (Suc i) es))"

text \<open>The number of clock entries with no end.\<close>

definition openCount :: "ClockEntry list \<Rightarrow> nat" where
  "openCount es = length (filter (\<lambda>e. End e = None) es)"

text \<open>
  The addresses of the items of a tree, and its outline: the items in document order,
  each with the addresses of its ancestors (the outermost first) and its own fields.
  The outline determines the tree.
\<close>

fun refsOf :: "Item list \<Rightarrow> nat set" where
  "refsOf [] = {}"
| "refsOf (Item d cs # items) = insert (ref d) (refsOf cs \<union> refsOf items)"

fun outline :: "nat list \<Rightarrow> Item list \<Rightarrow> (nat list \<times> ItemData) list" where
  "outline anc [] = []"
| "outline anc (Item d cs # items) = (anc, d) # outline (anc @ [ref d]) cs @ outline anc items"

text \<open>
  \<open>neighbours a b items\<close>: some list of the tree (the list of roots or the children
  of an item) holds the items with the addresses \<open>a\<close> and \<open>b\<close> next to each other, in
  either order.
\<close>

fun neighbours :: "nat \<Rightarrow> nat \<Rightarrow> Item list \<Rightarrow> bool" where
  "neighbours a b [] = False"
| "neighbours a b [Item d cs] = neighbours a b cs"
| "neighbours a b (Item d cs # y # rest) =
     ((ref d = a \<and> ref (dat y) = b) \<or> (ref d = b \<and> ref (dat y) = a)
      \<or> neighbours a b cs \<or> neighbours a b (y # rest))"

text \<open>
  The lines of an item as the specification of the serializer lists them: the heading
  line, the scheduled line, the deadline line, the drawer, the notes, the children.
  \<open>marked marker notes\<close>: some line of the notes contains the marker text.
\<close>

definition unlines :: "string list \<Rightarrow> string" where
  "unlines ls = concat (map (\<lambda>l. l @ [CHR 0x0A]) ls)"

definition marked :: "string \<Rightarrow> string list \<Rightarrow> bool" where
  "marked marker notes = list_ex (\<lambda>note. Contains note marker) notes"

definition specHeading :: "ItemData \<Rightarrow> string" where
  "specHeading d =
     replicate (Level d) (CHR ''*'') @ (if State d = StateNone then [] else '' '' @ State d)
     @ '' '' @ Title d"

definition specScheduled :: "ItemData \<Rightarrow> string list" where
  "specScheduled d =
     (case Scheduled d of
        None \<Rightarrow> []
      | Some t \<Rightarrow>
          if marked ''SCHEDULED:'' (Notes d) then []
          else [''SCHEDULED: <'' @ formatOrgDate t @ ''>''])"

definition specDeadline :: "ItemData \<Rightarrow> string list" where
  "specDeadline d =
     (case Deadline d of
        None \<Rightarrow> []
      | Some t \<Rightarrow>
          if marked ''DEADLINE:'' (Notes d) then []
          else [''DEADLINE: <'' @ formatOrgDate t @ ''>''])"

definition specClockLine :: "ClockEntry \<Rightarrow> string" where
  "specClockLine entry =
     ''CLOCK: ['' @ formatClockTimestamp (Start entry) @ '']''
     @ (case End entry of None \<Rightarrow> [] | Some e \<Rightarrow> ''--['' @ formatClockTimestamp e @ '']'')"

definition specDrawer :: "ItemData \<Rightarrow> string list" where
  "specDrawer d =
     (if ClockEntries d = [] \<or> marked '':LOGBOOK:'' (Notes d) then []
      else '':LOGBOOK:'' # map specClockLine (ClockEntries d) @ ['':END:''])"

definition specHead :: "ItemData \<Rightarrow> string list" where
  "specHead d = specHeading d # specScheduled d @ specDeadline d @ specDrawer d @ Notes d"

fun specLines :: "Item \<Rightarrow> string list" where
  "specLines (Item d cs) = specHead d @ concat (map specLines cs)"

text \<open>All the items of a tree: every root with everything below it.\<close>

fun subitems :: "Item \<Rightarrow> Item list" where
  "subitems (Item d cs) = Item d cs # concat (map subitems cs)"

definition allItems :: "Item list \<Rightarrow> Item list" where
  "allItems items = concat (map subitems items)"

text \<open>
  An item is well formed when its level is positive, its title is not empty and its state
  is one of the five constants; it is good when it is well formed and each of its
  children has a greater level.
\<close>

definition wellFormed :: "ItemData \<Rightarrow> bool" where
  "wellFormed d =
     (1 \<le> Level d \<and> Title d \<noteq> []
      \<and> State d \<in> {StateNone, StateTODO, StatePROG, StateBLOCK, StateDONE})"

definition good :: "Item \<Rightarrow> bool" where
  "good x = (wellFormed (dat x) \<and> list_all (\<lambda>c. Level (dat x) < Level (dat c)) (Children x))"

fun everyGood :: "Item \<Rightarrow> bool" where
  "everyGood (Item d cs) = (good (Item d cs) \<and> list_all everyGood cs)"

text \<open>The content lines and the notes change neither level, state nor title.\<close>

definition keepsHead :: "(ItemData \<Rightarrow> ItemData) \<Rightarrow> bool" where
  "keepsHead f = (\<forall>d. Level (f d) = Level d \<and> State (f d) = State d \<and> Title (f d) = Title d)"

text \<open>
  \<open>onSpine items p\<close>: the position \<open>p\<close> is that of the last root, or of the last child
  of the last root, and so on. \<open>lastNode items p\<close>: the item at such a position has no
  children, so it is the last item of the document. \<open>chain st\<close>: every entry of the
  stack is the position of an ancestor of the entry above it.
\<close>

fun onSpine :: "Item list \<Rightarrow> ptr \<Rightarrow> bool" where
  "onSpine its [] = False"
| "onSpine its (i # p) =
     (its \<noteq> [] \<and> i = length its - 1 \<and> (p = [] \<or> onSpine (Children (last its)) p))"

definition lastNode :: "Item list \<Rightarrow> ptr \<Rightarrow> bool" where
  "lastNode its p = (onSpine its p \<and> (\<exists>x. deref its p = Some x \<and> Children x = []))"

fun chain :: "ptr list \<Rightarrow> bool" where
  "chain [] = True"
| "chain [p] = (p \<noteq> [])"
| "chain (p # q # st) =
     (q \<noteq> [] \<and> length q < length p \<and> take (length q) p = q \<and> chain (q # st))"

text \<open>The notes-only text of a tree: the heading line and the notes of every item.\<close>

fun noteLines :: "Item \<Rightarrow> string list" where
  "noteLines (Item d cs) = specHeading d # Notes d @ concat (map noteLines cs)"

text \<open>
  The invariant of the loop: the stack is empty before the first heading, with no item
  open and none in the tree; afterwards the open item is the top of the stack and the
  last item of the document, and the stack is a chain of its ancestors.
\<close>

definition parser_inv :: "parser \<Rightarrow> bool" where
  "parser_inv s =
     (case itemStack s of
        [] \<Rightarrow> currentItem s = None \<and> Items (orgFile s) = []
      | p # st \<Rightarrow>
          currentItem s = Some p \<and> lastNode (Items (orgFile s)) p \<and> chain (p # st))"

text \<open>
  A heading line is normal when it is written as the serializer writes the heading that
  the parser reads from it.
\<close>

definition normalHeading :: "string \<Rightarrow> bool" where
  "normalHeading l =
     (case headingPattern l of None \<Rightarrow> True | Some m \<Rightarrow> l = specHeading (dat (newItem 0 m)))"

text \<open>
  A source block is made of the lines from one that starts, after white space, with
  \<^verbatim>\<open>#+BEGIN_SRC\<close> to the next one that starts with \<^verbatim>\<open>#+END_SRC\<close>, both included; a
  line that starts with \<^verbatim>\<open>#+END_SRC\<close> where no block is open counts as a block of its
  own. \<open>canonicalFrom b h ls\<close> reads the lines \<open>ls\<close>, where \<open>b\<close> tells that a source block
  is open and \<open>h\<close> that the line before was a heading line outside the source blocks:
  every line outside the source blocks that matches the heading grammar is normal, and no
  line outside the source blocks that is empty after trimming directly follows a heading
  line. The lines of the source blocks are free.
\<close>

fun canonicalFrom :: "bool \<Rightarrow> bool \<Rightarrow> string list \<Rightarrow> bool" where
  "canonicalFrom b h [] = True"
| "canonicalFrom b h (l # ls) =
     (if codeBlockStart l then canonicalFrom True False ls
      else if codeBlockEnd l then canonicalFrom False False ls
      else if b then canonicalFrom True False ls
      else if headingPattern l \<noteq> None then normalHeading l \<and> canonicalFrom False True ls
      else \<not> (h \<and> TrimSpace_empty l) \<and> canonicalFrom False False ls)"

text \<open>
  \<open>canonical\<close>: the lines have no newline inside, no carriage return at the end and fit
  the scanner; the first line is a heading; outside the source blocks the heading lines
  are normal and no blank line follows a heading.
\<close>

definition canonical :: "string list \<Rightarrow> bool" where
  "canonical ls =
     (list_all (\<lambda>l. CHR 0x0A \<notin> set l \<and> dropCR l = l \<and> length l < MaxScanTokenSize) ls
      \<and> (ls = [] \<or> headingPattern (hd ls) \<noteq> None)
      \<and> canonicalFrom False False ls)"

text \<open>
  The precondition of the round trip: the notes of the item already hold a line for
  each directive that its fields would make the serializer add.
\<close>

definition nothingToAdd :: "ItemData \<Rightarrow> bool" where
  "nothingToAdd d =
     ((Scheduled d = None \<or> marked ''SCHEDULED:'' (Notes d))
      \<and> (Deadline d = None \<or> marked ''DEADLINE:'' (Notes d))
      \<and> (ClockEntries d = [] \<or> marked '':LOGBOOK:'' (Notes d)))"

text \<open>
  What the parser keeps of the lines that it reads, as the heading lines and the notes of
  the tree in document order. \<open>opn\<close> tells that an item is open, \<open>b\<close> that a source block
  is open, \<open>h\<close> that the notes of the open item are still empty. The lines before the
  first heading are dropped; a heading line outside the source blocks is kept in its
  normal form; a line that is empty after trimming is dropped outside the source blocks
  while the notes of the open item are empty; every other line is kept as it is.
\<close>

fun kept :: "bool \<Rightarrow> bool \<Rightarrow> bool \<Rightarrow> string list \<Rightarrow> string list" where
  "kept opn b h [] = []"
| "kept opn b h (l # ls) =
     (if codeBlockStart l then (if opn then [l] else []) @ kept opn True False ls
      else if codeBlockEnd l then (if opn then [l] else []) @ kept opn False False ls
      else if b then (if opn then [l] else []) @ kept opn True False ls
      else (case headingPattern l of
              Some m \<Rightarrow> specHeading (dat (newItem 0 m)) # kept True False True ls
            | None \<Rightarrow>
                if opn \<and> \<not> (h \<and> TrimSpace_empty l) then l # kept True False False ls
                else kept opn False h ls))"

text \<open>\<open>fresh s\<close>: an item is open in the state \<open>s\<close> of the parser and its notes are empty.\<close>

definition fresh :: "parser \<Rightarrow> bool" where
  "fresh s =
     (case currentItem s of
        None \<Rightarrow> False
      | Some p \<Rightarrow>
          (case deref (Items (orgFile s)) p of
             None \<Rightarrow> False
           | Some x \<Rightarrow> Notes (dat x) = []))"

section \<open>State cycling\<close>

lemmas state_defs = StateNone_def StateTODO_def StatePROG_def StateBLOCK_def StateDONE_def

lemma funpow_five: "(f ^^ 5) x = f (f (f (f (f x))))"
  by (simp add: numeral_eq_Suc)

lemma CycleState_Item:
  "CycleState (Item d cs) =
     Item (d\<lparr>State := (if State d = [] then ''TODO'' else if State d = ''TODO'' then ''PROG''
        else if State d = ''PROG'' then ''BLOCK'' else if State d = ''BLOCK'' then ''DONE''
        else if State d = ''DONE'' then [] else State d)\<rparr>) cs"
  by (simp add: CycleState_def state_defs)

lemma cycleStateBackward_Item:
  "cycleStateBackward (Item d cs) =
     Item (d\<lparr>State := (if State d = [] then ''DONE'' else if State d = ''TODO'' then []
        else if State d = ''PROG'' then ''TODO'' else if State d = ''BLOCK'' then ''PROG''
        else if State d = ''DONE'' then ''BLOCK'' else State d)\<rparr>) cs"
  by (simp add: cycleStateBackward_def state_defs)

text \<open>
  C4. For an item whose state is one of None, TODO, PROG, BLOCK and DONE, five
  applications of \<open>CycleState\<close> give the item back, and \<open>cycleStateBackward\<close>
  undoes \<open>CycleState\<close> and is undone by it.
\<close>

theorem cycle_state_wraps_and_inverts:
  assumes "State (dat item) \<in> {StateNone, StateTODO, StatePROG, StateBLOCK, StateDONE}"
  shows "(CycleState ^^ 5) item = item
       \<and> cycleStateBackward (CycleState item) = item
       \<and> CycleState (cycleStateBackward item) = item"
proof (cases item)
  case (Item d cs)
  with assms consider "State d = []" | "State d = ''TODO''" | "State d = ''PROG''"
    | "State d = ''BLOCK''" | "State d = ''DONE''"
    by (auto simp: state_defs)
  then show ?thesis
  proof cases
    case 1
    then show ?thesis
      unfolding Item funpow_five by (simp add: CycleState_Item cycleStateBackward_Item)
  next
    case 2
    then show ?thesis
      unfolding Item funpow_five by (simp add: CycleState_Item cycleStateBackward_Item)
  next
    case 3
    then show ?thesis
      unfolding Item funpow_five by (simp add: CycleState_Item cycleStateBackward_Item)
  next
    case 4
    then show ?thesis
      unfolding Item funpow_five by (simp add: CycleState_Item cycleStateBackward_Item)
  next
    case 5
    then show ?thesis
      unfolding Item funpow_five by (simp add: CycleState_Item cycleStateBackward_Item)
  qed
qed

theorem cycle_state_wraps_and_inverts_witness:
  "State (dat (newItem 0 (''*'', ''PROG'', ''Write report'')))
     \<in> {StateNone, StateTODO, StatePROG, StateBLOCK, StateDONE}
   \<and> (CycleState ^^ 5) (newItem 0 (''*'', ''PROG'', ''Write report''))
       = newItem 0 (''*'', ''PROG'', ''Write report'')
   \<and> cycleStateBackward (CycleState (newItem 0 (''*'', ''PROG'', ''Write report'')))
       = newItem 0 (''*'', ''PROG'', ''Write report'')
   \<and> CycleState (cycleStateBackward (newItem 0 (''*'', ''PROG'', ''Write report'')))
       = newItem 0 (''*'', ''PROG'', ''Write report'')"
proof -
  have h: "State (dat (newItem 0 (''*'', ''PROG'', ''Write report'')))
     \<in> {StateNone, StateTODO, StatePROG, StateBLOCK, StateDONE}"
    by (simp add: newItem_def state_defs)
  show ?thesis
    by (rule conjI [OF h cycle_state_wraps_and_inverts [OF h]])
qed

section \<open>Clocking in and out\<close>

lemma anyOpen_iff: "anyOpen es = (\<exists>e \<in> set es. End e = None)"
  by (induction es) auto

lemma closeFrom_none:
  "(\<And>k. k < n \<Longrightarrow> End (es ! k) \<noteq> None) \<Longrightarrow> closeFrom n now es = (es, False)"
  by (induction n) auto

lemma closeFrom_some:
  assumes "\<exists>k < n. End (es ! k) = None"
  shows "\<exists>i < n. End (es ! i) = None \<and> (\<forall>j. i < j \<and> j < n \<longrightarrow> End (es ! j) \<noteq> None)
           \<and> closeFrom n now es = (es[i := (es ! i)\<lparr>End := Some now\<rparr>], True)"
  using assms
proof (induction n)
  case 0
  then show ?case by simp
next
  case (Suc n)
  show ?case
  proof (cases "End (es ! n) = None")
    case True
    then have "End (es ! n) = None \<and> (\<forall>j. n < j \<and> j < Suc n \<longrightarrow> End (es ! j) \<noteq> None)
           \<and> closeFrom (Suc n) now es = (es[n := (es ! n)\<lparr>End := Some now\<rparr>], True)"
      by auto
    then show ?thesis by blast
  next
    case False
    with Suc.prems have "\<exists>k < n. End (es ! k) = None"
      using less_Suc_eq by auto
    from Suc.IH [OF this] obtain i where i: "i < n" "End (es ! i) = None"
      "\<forall>j. i < j \<and> j < n \<longrightarrow> End (es ! j) \<noteq> None"
      "closeFrom n now es = (es[i := (es ! i)\<lparr>End := Some now\<rparr>], True)"
      by blast
    have "\<forall>j. i < j \<and> j < Suc n \<longrightarrow> End (es ! j) \<noteq> None"
      using i(3) False less_Suc_eq by auto
    moreover have "closeFrom (Suc n) now es = (es[i := (es ! i)\<lparr>End := Some now\<rparr>], True)"
      using False i(4) by auto
    ultimately show ?thesis
      using i(1,2) less_Suc_eq by blast
  qed
qed

text \<open>
  C5. \<open>ClockIn\<close> on an item with an open entry returns false and leaves the item as
  it is; otherwise it appends one entry with no end and returns true. \<open>ClockOut\<close> on
  an item with no open entry returns false and leaves the item as it is; otherwise it
  sets the end of the last open entry, changes nothing else, and returns true.
\<close>

theorem clock_in_and_out:
  "(hasOpen item \<longrightarrow> ClockIn now item = (item, False))
   \<and> (\<not> hasOpen item \<longrightarrow>
        ClockIn now item =
          (upd (\<lambda>d. d\<lparr>ClockEntries := ClockEntries d @ [\<lparr>Start = now, End = None\<rparr>]\<rparr>) item, True))
   \<and> (\<not> hasOpen item \<longrightarrow> ClockOut now item = (item, False))
   \<and> (hasOpen item \<longrightarrow>
        (\<exists>i. lastOpen (ClockEntries (dat item)) i
           \<and> ClockOut now item =
               (upd (\<lambda>d. d\<lparr>ClockEntries := (ClockEntries d)[i := (ClockEntries d ! i)\<lparr>End := Some now\<rparr>]\<rparr>)
                  item, True)))"
proof (cases item)
  case (Item d cs)
  let ?es = "ClockEntries d"
  have in1: "hasOpen item \<Longrightarrow> ClockIn now item = (item, False)"
    by (simp add: ClockIn_def IsClockedIn_def anyOpen_iff hasOpen_def)
  have in2: "\<not> hasOpen item \<Longrightarrow> ClockIn now item =
          (upd (\<lambda>d. d\<lparr>ClockEntries := ClockEntries d @ [\<lparr>Start = now, End = None\<rparr>]\<rparr>) item, True)"
    by (simp add: ClockIn_def IsClockedIn_def anyOpen_iff hasOpen_def)
  have out1: "ClockOut now item = (item, False)" if "\<not> hasOpen item"
  proof -
    from that have "\<And>k. k < length ?es \<Longrightarrow> End (?es ! k) \<noteq> None"
      by (auto simp: hasOpen_def Item)
    then have "closeFrom (length ?es) now ?es = (?es, False)"
      by (rule closeFrom_none)
    then show ?thesis by (simp add: ClockOut_def Item)
  qed
  have out2: "\<exists>i. lastOpen (ClockEntries (dat item)) i
           \<and> ClockOut now item =
               (upd (\<lambda>d. d\<lparr>ClockEntries := (ClockEntries d)[i := (ClockEntries d ! i)\<lparr>End := Some now\<rparr>]\<rparr>)
                  item, True)" if "hasOpen item"
  proof -
    from that have "\<exists>k < length ?es. End (?es ! k) = None"
      by (auto simp: hasOpen_def Item in_set_conv_nth)
    from closeFrom_some [OF this, of now] obtain i where
      "i < length ?es" "End (?es ! i) = None"
      "\<forall>j. i < j \<and> j < length ?es \<longrightarrow> End (?es ! j) \<noteq> None"
      "closeFrom (length ?es) now ?es = (?es[i := (?es ! i)\<lparr>End := Some now\<rparr>], True)"
      by blast
    then have i: "i < length ?es" "End (?es ! i) = None"
      and later: "\<forall>j. i < j \<and> j < length ?es \<longrightarrow> End (?es ! j) \<noteq> None"
      and c: "closeFrom (length ?es) now ?es = (?es[i := (?es ! i)\<lparr>End := Some now\<rparr>], True)"
      by blast+
    have "list_all (\<lambda>e. End e \<noteq> None) (drop (Suc i) ?es)"
      unfolding list_all_length
    proof (intro allI impI)
      fix k assume "k < length (drop (Suc i) ?es)"
      then have "i < Suc i + k \<and> Suc i + k < length ?es" by auto
      with later have "End (?es ! (Suc i + k)) \<noteq> None" by blast
      then show "End (drop (Suc i) ?es ! k) \<noteq> None"
        using i(1) by (simp add: nth_drop)
    qed
    with i c have "lastOpen (ClockEntries (dat item)) i
           \<and> ClockOut now item =
               (upd (\<lambda>d. d\<lparr>ClockEntries := (ClockEntries d)[i := (ClockEntries d ! i)\<lparr>End := Some now\<rparr>]\<rparr>)
                  item, True)"
      by (simp add: lastOpen_def ClockOut_def Item)
    then show ?thesis ..
  qed
  from in1 in2 out1 out2 show ?thesis by blast
qed

theorem clock_in_and_out_witness:
  "hasOpen
     (Item \<lparr>ref = 0, Level = 1, State = ''TODO'', Title = ''Write report'', Scheduled = None,
        Deadline = None, Notes = [], Folded = False,
        ClockEntries =
          [\<lparr>Start = \<lparr>tYear = 2024, tMonth = 1, tDay = 15, tHour = 10, tMinute = 0, tSecond = 0, tNano = 0\<rparr>,
            End = Some \<lparr>tYear = 2024, tMonth = 1, tDay = 15, tHour = 11, tMinute = 30, tSecond = 0, tNano = 0\<rparr>\<rparr>,
           \<lparr>Start = \<lparr>tYear = 2024, tMonth = 1, tDay = 16, tHour = 9, tMinute = 0, tSecond = 0, tNano = 0\<rparr>,
            End = None\<rparr>]\<rparr> [])
   \<and> ClockIn \<lparr>tYear = 2024, tMonth = 1, tDay = 16, tHour = 17, tMinute = 45, tSecond = 12, tNano = 0\<rparr>
     (Item \<lparr>ref = 0, Level = 1, State = ''TODO'', Title = ''Write report'', Scheduled = None,
        Deadline = None, Notes = [], Folded = False,
        ClockEntries =
          [\<lparr>Start = \<lparr>tYear = 2024, tMonth = 1, tDay = 15, tHour = 10, tMinute = 0, tSecond = 0, tNano = 0\<rparr>,
            End = Some \<lparr>tYear = 2024, tMonth = 1, tDay = 15, tHour = 11, tMinute = 30, tSecond = 0, tNano = 0\<rparr>\<rparr>,
           \<lparr>Start = \<lparr>tYear = 2024, tMonth = 1, tDay = 16, tHour = 9, tMinute = 0, tSecond = 0, tNano = 0\<rparr>,
            End = None\<rparr>]\<rparr> [])
     = ((Item \<lparr>ref = 0, Level = 1, State = ''TODO'', Title = ''Write report'', Scheduled = None,
        Deadline = None, Notes = [], Folded = False,
        ClockEntries =
          [\<lparr>Start = \<lparr>tYear = 2024, tMonth = 1, tDay = 15, tHour = 10, tMinute = 0, tSecond = 0, tNano = 0\<rparr>,
            End = Some \<lparr>tYear = 2024, tMonth = 1, tDay = 15, tHour = 11, tMinute = 30, tSecond = 0, tNano = 0\<rparr>\<rparr>,
           \<lparr>Start = \<lparr>tYear = 2024, tMonth = 1, tDay = 16, tHour = 9, tMinute = 0, tSecond = 0, tNano = 0\<rparr>,
            End = None\<rparr>]\<rparr> []), False)
   \<and> ClockOut \<lparr>tYear = 2024, tMonth = 1, tDay = 16, tHour = 17, tMinute = 45, tSecond = 12, tNano = 0\<rparr>
     (Item \<lparr>ref = 0, Level = 1, State = ''TODO'', Title = ''Write report'', Scheduled = None,
        Deadline = None, Notes = [], Folded = False,
        ClockEntries =
          [\<lparr>Start = \<lparr>tYear = 2024, tMonth = 1, tDay = 15, tHour = 10, tMinute = 0, tSecond = 0, tNano = 0\<rparr>,
            End = Some \<lparr>tYear = 2024, tMonth = 1, tDay = 15, tHour = 11, tMinute = 30, tSecond = 0, tNano = 0\<rparr>\<rparr>,
           \<lparr>Start = \<lparr>tYear = 2024, tMonth = 1, tDay = 16, tHour = 9, tMinute = 0, tSecond = 0, tNano = 0\<rparr>,
            End = None\<rparr>]\<rparr> [])
     = ((Item \<lparr>ref = 0, Level = 1, State = ''TODO'', Title = ''Write report'', Scheduled = None,
        Deadline = None, Notes = [], Folded = False,
        ClockEntries =
          [\<lparr>Start = \<lparr>tYear = 2024, tMonth = 1, tDay = 15, tHour = 10, tMinute = 0, tSecond = 0, tNano = 0\<rparr>,
            End = Some \<lparr>tYear = 2024, tMonth = 1, tDay = 15, tHour = 11, tMinute = 30, tSecond = 0, tNano = 0\<rparr>\<rparr>,
           \<lparr>Start = \<lparr>tYear = 2024, tMonth = 1, tDay = 16, tHour = 9, tMinute = 0, tSecond = 0, tNano = 0\<rparr>,
            End = Some \<lparr>tYear = 2024, tMonth = 1, tDay = 16, tHour = 17, tMinute = 45, tSecond = 12, tNano = 0\<rparr>\<rparr>]\<rparr> []), True)
   \<and> \<not> hasOpen
     (Item \<lparr>ref = 0, Level = 1, State = ''TODO'', Title = ''Write report'', Scheduled = None,
        Deadline = None, Notes = [], Folded = False,
        ClockEntries =
          [\<lparr>Start = \<lparr>tYear = 2024, tMonth = 1, tDay = 15, tHour = 10, tMinute = 0, tSecond = 0, tNano = 0\<rparr>,
            End = Some \<lparr>tYear = 2024, tMonth = 1, tDay = 15, tHour = 11, tMinute = 30, tSecond = 0, tNano = 0\<rparr>\<rparr>]\<rparr> [])
   \<and> ClockIn \<lparr>tYear = 2024, tMonth = 1, tDay = 16, tHour = 17, tMinute = 45, tSecond = 12, tNano = 0\<rparr>
     (Item \<lparr>ref = 0, Level = 1, State = ''TODO'', Title = ''Write report'', Scheduled = None,
        Deadline = None, Notes = [], Folded = False,
        ClockEntries =
          [\<lparr>Start = \<lparr>tYear = 2024, tMonth = 1, tDay = 15, tHour = 10, tMinute = 0, tSecond = 0, tNano = 0\<rparr>,
            End = Some \<lparr>tYear = 2024, tMonth = 1, tDay = 15, tHour = 11, tMinute = 30, tSecond = 0, tNano = 0\<rparr>\<rparr>]\<rparr> [])
     = ((Item \<lparr>ref = 0, Level = 1, State = ''TODO'', Title = ''Write report'', Scheduled = None,
        Deadline = None, Notes = [], Folded = False,
        ClockEntries =
          [\<lparr>Start = \<lparr>tYear = 2024, tMonth = 1, tDay = 15, tHour = 10, tMinute = 0, tSecond = 0, tNano = 0\<rparr>,
            End = Some \<lparr>tYear = 2024, tMonth = 1, tDay = 15, tHour = 11, tMinute = 30, tSecond = 0, tNano = 0\<rparr>\<rparr>,
           \<lparr>Start = \<lparr>tYear = 2024, tMonth = 1, tDay = 16, tHour = 17, tMinute = 45, tSecond = 12, tNano = 0\<rparr>,
            End = None\<rparr>]\<rparr> []), True)
   \<and> ClockOut \<lparr>tYear = 2024, tMonth = 1, tDay = 16, tHour = 17, tMinute = 45, tSecond = 12, tNano = 0\<rparr>
     (Item \<lparr>ref = 0, Level = 1, State = ''TODO'', Title = ''Write report'', Scheduled = None,
        Deadline = None, Notes = [], Folded = False,
        ClockEntries =
          [\<lparr>Start = \<lparr>tYear = 2024, tMonth = 1, tDay = 15, tHour = 10, tMinute = 0, tSecond = 0, tNano = 0\<rparr>,
            End = Some \<lparr>tYear = 2024, tMonth = 1, tDay = 15, tHour = 11, tMinute = 30, tSecond = 0, tNano = 0\<rparr>\<rparr>]\<rparr> [])
     = ((Item \<lparr>ref = 0, Level = 1, State = ''TODO'', Title = ''Write report'', Scheduled = None,
        Deadline = None, Notes = [], Folded = False,
        ClockEntries =
          [\<lparr>Start = \<lparr>tYear = 2024, tMonth = 1, tDay = 15, tHour = 10, tMinute = 0, tSecond = 0, tNano = 0\<rparr>,
            End = Some \<lparr>tYear = 2024, tMonth = 1, tDay = 15, tHour = 11, tMinute = 30, tSecond = 0, tNano = 0\<rparr>\<rparr>]\<rparr> []), False)"
proof -
  let ?A = "(Item \<lparr>ref = 0, Level = 1, State = ''TODO'', Title = ''Write report'', Scheduled = None,
        Deadline = None, Notes = [], Folded = False,
        ClockEntries =
          [\<lparr>Start = \<lparr>tYear = 2024, tMonth = 1, tDay = 15, tHour = 10, tMinute = 0, tSecond = 0, tNano = 0\<rparr>,
            End = Some \<lparr>tYear = 2024, tMonth = 1, tDay = 15, tHour = 11, tMinute = 30, tSecond = 0, tNano = 0\<rparr>\<rparr>,
           \<lparr>Start = \<lparr>tYear = 2024, tMonth = 1, tDay = 16, tHour = 9, tMinute = 0, tSecond = 0, tNano = 0\<rparr>,
            End = None\<rparr>]\<rparr> [])"
  let ?B = "(Item \<lparr>ref = 0, Level = 1, State = ''TODO'', Title = ''Write report'', Scheduled = None,
        Deadline = None, Notes = [], Folded = False,
        ClockEntries =
          [\<lparr>Start = \<lparr>tYear = 2024, tMonth = 1, tDay = 15, tHour = 10, tMinute = 0, tSecond = 0, tNano = 0\<rparr>,
            End = Some \<lparr>tYear = 2024, tMonth = 1, tDay = 15, tHour = 11, tMinute = 30, tSecond = 0, tNano = 0\<rparr>\<rparr>]\<rparr> [])"
  let ?now = "\<lparr>tYear = 2024, tMonth = 1, tDay = 16, tHour = 17, tMinute = 45, tSecond = 12, tNano = 0\<rparr>"
  have a: "hasOpen ?A"
    by (simp add: hasOpen_def)
  have b: "\<not> hasOpen ?B"
    by (simp add: hasOpen_def)
  from a clock_in_and_out [of ?A ?now]
  have a1: "ClockIn ?now ?A = (?A, False)"
    and "\<exists>i. lastOpen (ClockEntries (dat ?A)) i
           \<and> ClockOut ?now ?A =
               (upd (\<lambda>d. d\<lparr>ClockEntries := (ClockEntries d)[i := (ClockEntries d ! i)\<lparr>End := Some ?now\<rparr>]\<rparr>)
                  ?A, True)"
    by blast+
  then obtain i where i: "lastOpen (ClockEntries (dat ?A)) i"
    and o: "ClockOut ?now ?A =
               (upd (\<lambda>d. d\<lparr>ClockEntries := (ClockEntries d)[i := (ClockEntries d ! i)\<lparr>End := Some ?now\<rparr>]\<rparr>)
                  ?A, True)"
    by blast
  from i have "i = 1"
    by (cases i) (simp_all add: lastOpen_def)
  with o have a2: "ClockOut ?now ?A = ((Item \<lparr>ref = 0, Level = 1, State = ''TODO'', Title = ''Write report'', Scheduled = None,
        Deadline = None, Notes = [], Folded = False,
        ClockEntries =
          [\<lparr>Start = \<lparr>tYear = 2024, tMonth = 1, tDay = 15, tHour = 10, tMinute = 0, tSecond = 0, tNano = 0\<rparr>,
            End = Some \<lparr>tYear = 2024, tMonth = 1, tDay = 15, tHour = 11, tMinute = 30, tSecond = 0, tNano = 0\<rparr>\<rparr>,
           \<lparr>Start = \<lparr>tYear = 2024, tMonth = 1, tDay = 16, tHour = 9, tMinute = 0, tSecond = 0, tNano = 0\<rparr>,
            End = Some \<lparr>tYear = 2024, tMonth = 1, tDay = 16, tHour = 17, tMinute = 45, tSecond = 12, tNano = 0\<rparr>\<rparr>]\<rparr> []), True)"
    by simp
  from b clock_in_and_out [of ?B ?now]
  have b1: "ClockIn ?now ?B =
          (upd (\<lambda>d. d\<lparr>ClockEntries := ClockEntries d @ [\<lparr>Start = ?now, End = None\<rparr>]\<rparr>) ?B, True)"
    and b2: "ClockOut ?now ?B = (?B, False)"
    by blast+
  from b1 have b1': "ClockIn ?now ?B = ((Item \<lparr>ref = 0, Level = 1, State = ''TODO'', Title = ''Write report'', Scheduled = None,
        Deadline = None, Notes = [], Folded = False,
        ClockEntries =
          [\<lparr>Start = \<lparr>tYear = 2024, tMonth = 1, tDay = 15, tHour = 10, tMinute = 0, tSecond = 0, tNano = 0\<rparr>,
            End = Some \<lparr>tYear = 2024, tMonth = 1, tDay = 15, tHour = 11, tMinute = 30, tSecond = 0, tNano = 0\<rparr>\<rparr>,
           \<lparr>Start = \<lparr>tYear = 2024, tMonth = 1, tDay = 16, tHour = 17, tMinute = 45, tSecond = 12, tNano = 0\<rparr>,
            End = None\<rparr>]\<rparr> []), True)"
    by simp
  from a a1 a2 b b1' b2 show ?thesis by blast
qed

section \<open>Open clock entries\<close>

lemma openCount_simps [simp]:
  "openCount [] = 0"
  "openCount (e # es) = (if End e = None then Suc (openCount es) else openCount es)"
  "openCount (es @ fs) = openCount es + openCount fs"
  by (simp_all add: openCount_def)

lemma openCount_zero: "openCount es = 0 \<longleftrightarrow> \<not> anyOpen es"
  by (induction es) auto

lemma openCount_close:
  "i < length es \<Longrightarrow> End (es ! i) = None \<Longrightarrow>
     Suc (openCount (es[i := (es ! i)\<lparr>End := Some now\<rparr>])) = openCount es"
proof (induction es arbitrary: i)
  case Nil
  then show ?case by simp
next
  case (Cons e es)
  then show ?case by (cases i) auto
qed

lemma closeFrom_openCount:
  "n \<le> length es \<Longrightarrow> openCount (fst (closeFrom n now es)) \<le> openCount es"
proof (induction n)
  case 0
  then show ?case by simp
next
  case (Suc n)
  show ?case
  proof (cases "End (es ! n) = None")
    case True
    with Suc.prems openCount_close [of n es now] show ?thesis by simp
  next
    case False
    with Suc show ?thesis by auto
  qed
qed

text \<open>
  C9, as amended. \<open>ClockIn\<close> and \<open>ClockOut\<close> keep the property that an item has at
  most one clock entry with no end. (The parser does not establish it: it appends one
  entry for every clock line of the text.)
\<close>

theorem clocking_keeps_at_most_one_open:
  assumes "openCount (ClockEntries (dat item)) \<le> 1"
  shows "openCount (ClockEntries (dat (fst (ClockIn now item)))) \<le> 1
       \<and> openCount (ClockEntries (dat (fst (ClockOut now item)))) \<le> 1"
proof (cases item)
  case (Item d cs)
  have "openCount (ClockEntries (dat (fst (ClockIn now item)))) \<le> 1"
  proof (cases "anyOpen (ClockEntries d)")
    case True
    with assms show ?thesis by (simp add: ClockIn_def IsClockedIn_def Item)
  next
    case False
    then have "openCount (ClockEntries d) = 0" by (simp add: openCount_zero)
    with False show ?thesis by (simp add: ClockIn_def IsClockedIn_def Item)
  qed
  moreover have "openCount (ClockEntries (dat (fst (ClockOut now item)))) \<le> 1"
    using closeFrom_openCount [of "length (ClockEntries d)" "ClockEntries d" now] assms
    by (simp add: ClockOut_def Item case_prod_beta)
  ultimately show ?thesis ..
qed

theorem clocking_keeps_at_most_one_open_witness:
  "openCount (ClockEntries (dat
     (Item \<lparr>ref = 0, Level = 1, State = ''TODO'', Title = ''Write report'', Scheduled = None,
        Deadline = None, Notes = [], Folded = False,
        ClockEntries = [\<lparr>Start = \<lparr>tYear = 2024, tMonth = 1, tDay = 16, tHour = 9, tMinute = 0,
          tSecond = 0, tNano = 0\<rparr>, End = None\<rparr>]\<rparr> []))) \<le> 1
   \<and> openCount (ClockEntries (dat (fst (ClockIn
       \<lparr>tYear = 2024, tMonth = 1, tDay = 16, tHour = 17, tMinute = 45, tSecond = 12, tNano = 0\<rparr>
     (Item \<lparr>ref = 0, Level = 1, State = ''TODO'', Title = ''Write report'', Scheduled = None,
        Deadline = None, Notes = [], Folded = False,
        ClockEntries = [\<lparr>Start = \<lparr>tYear = 2024, tMonth = 1, tDay = 16, tHour = 9, tMinute = 0,
          tSecond = 0, tNano = 0\<rparr>, End = None\<rparr>]\<rparr> []))))) \<le> 1
   \<and> openCount (ClockEntries (dat (fst (ClockOut
       \<lparr>tYear = 2024, tMonth = 1, tDay = 16, tHour = 17, tMinute = 45, tSecond = 12, tNano = 0\<rparr>
     (Item \<lparr>ref = 0, Level = 1, State = ''TODO'', Title = ''Write report'', Scheduled = None,
        Deadline = None, Notes = [], Folded = False,
        ClockEntries = [\<lparr>Start = \<lparr>tYear = 2024, tMonth = 1, tDay = 16, tHour = 9, tMinute = 0,
          tSecond = 0, tNano = 0\<rparr>, End = None\<rparr>]\<rparr> []))))) \<le> 1"
proof -
  have h: "openCount (ClockEntries (dat
     (Item \<lparr>ref = 0, Level = 1, State = ''TODO'', Title = ''Write report'', Scheduled = None,
        Deadline = None, Notes = [], Folded = False,
        ClockEntries = [\<lparr>Start = \<lparr>tYear = 2024, tMonth = 1, tDay = 16, tHour = 9, tMinute = 0,
          tSecond = 0, tNano = 0\<rparr>, End = None\<rparr>]\<rparr> []))) \<le> 1"
    by simp
  show ?thesis
    by (rule conjI [OF h clocking_keeps_at_most_one_open [OF h]])
qed

text \<open>
  The claim as stated fails on the parser: two clock lines without an end give an item
  with two open entries.
\<close>

lemma scan_two_clocks:
  "scanLines []
     ''* A\<newline>CLOCK: [2024-01-15 Mon 10:00]\<newline>CLOCK: [2024-01-15 Mon 11:00]\<newline>''
   = [''* A'', ''CLOCK: [2024-01-15 Mon 10:00]'', ''CLOCK: [2024-01-15 Mon 11:00]'']"
  by code_simp

lemma steps_two_clocks:
  "orgFile (foldl step (initial ''todo.org'')
     [''* A'', ''CLOCK: [2024-01-15 Mon 10:00]'', ''CLOCK: [2024-01-15 Mon 11:00]''])
   = \<lparr>Path = ''todo.org'',
      Items = [Item \<lparr>ref = 0, Level = 1, State = [], Title = ''A'', Scheduled = None,
        Deadline = None,
        Notes = [''CLOCK: [2024-01-15 Mon 10:00]'', ''CLOCK: [2024-01-15 Mon 11:00]''],
        Folded = False,
        ClockEntries =
          [\<lparr>Start = \<lparr>tYear = 2024, tMonth = 1, tDay = 15, tHour = 10, tMinute = 0,
              tSecond = 0, tNano = 0\<rparr>, End = None\<rparr>,
           \<lparr>Start = \<lparr>tYear = 2024, tMonth = 1, tDay = 15, tHour = 11, tMinute = 0,
              tSecond = 0, tNano = 0\<rparr>, End = None\<rparr>]\<rparr> []]\<rparr>"
  by code_simp

lemma short_lines_two_clocks:
  "list_ex (\<lambda>l. MaxScanTokenSize \<le> length l)
     [''* A'', ''CLOCK: [2024-01-15 Mon 10:00]'', ''CLOCK: [2024-01-15 Mon 11:00]''] = False"
  by (simp add: MaxScanTokenSize_def)

lemma dropCR_two_clocks:
  "map dropCR [''* A'', ''CLOCK: [2024-01-15 Mon 10:00]'', ''CLOCK: [2024-01-15 Mon 11:00]'']
   = [''* A'', ''CLOCK: [2024-01-15 Mon 10:00]'', ''CLOCK: [2024-01-15 Mon 11:00]'']"
  by (simp add: dropCR_def)

theorem parse_two_open_clocks_counterexample:
  "ParseOrgFile ''todo.org''
     (Contents ''* A\<newline>CLOCK: [2024-01-15 Mon 10:00]\<newline>CLOCK: [2024-01-15 Mon 11:00]\<newline>'')
   = Inr \<lparr>Path = ''todo.org'',
      Items = [Item \<lparr>ref = 0, Level = 1, State = [], Title = ''A'', Scheduled = None,
        Deadline = None,
        Notes = [''CLOCK: [2024-01-15 Mon 10:00]'', ''CLOCK: [2024-01-15 Mon 11:00]''],
        Folded = False,
        ClockEntries =
          [\<lparr>Start = \<lparr>tYear = 2024, tMonth = 1, tDay = 15, tHour = 10, tMinute = 0,
              tSecond = 0, tNano = 0\<rparr>, End = None\<rparr>,
           \<lparr>Start = \<lparr>tYear = 2024, tMonth = 1, tDay = 15, tHour = 11, tMinute = 0,
              tSecond = 0, tNano = 0\<rparr>, End = None\<rparr>]\<rparr> []]\<rparr>
   \<and> openCount
          [\<lparr>Start = \<lparr>tYear = 2024, tMonth = 1, tDay = 15, tHour = 10, tMinute = 0,
              tSecond = 0, tNano = 0\<rparr>, End = None\<rparr>,
           \<lparr>Start = \<lparr>tYear = 2024, tMonth = 1, tDay = 15, tHour = 11, tMinute = 0,
              tSecond = 0, tNano = 0\<rparr>, End = None\<rparr>] = 2"
  unfolding ParseOrgFile_def os_file.case Let_def scan_two_clocks short_lines_two_clocks
    dropCR_two_clocks steps_two_clocks
  by simp

section \<open>Deleting an item\<close>

lemma removeFromList_absent:
  "target \<notin> Some ` refsOf items \<Longrightarrow> removeFromList items target = items"
  by (induction items target rule: removeFromList.induct) auto

lemma outline_below_target:
  "target \<in> Some ` set anc \<Longrightarrow>
     filter (\<lambda>(a, d). target \<notin> Some ` set (a @ [ref d])) (outline anc items) = []"
  by (induction anc items rule: outline.induct) auto

lemma outline_removeFromList:
  "target \<notin> Some ` set anc \<Longrightarrow>
     outline anc (removeFromList items target)
       = filter (\<lambda>(a, d). target \<notin> Some ` set (a @ [ref d])) (outline anc items)"
proof (induction items target arbitrary: anc rule: removeFromList.induct)
  case (1 target)
  then show ?case by simp
next
  case (2 d cs items target)
  show ?case
  proof (cases "Some (ref d) = target")
    case True
    then have "target \<in> Some ` set (anc @ [ref d])" by auto
    then have "filter (\<lambda>(a, d). target \<notin> Some ` set (a @ [ref d]))
                 (outline (anc @ [ref d]) cs) = []"
      by (rule outline_below_target)
    with True 2 show ?thesis by auto
  next
    case False
    with 2 show ?thesis by auto
  qed
qed

text \<open>
  C6, as amended. \<open>deleteItem\<close> returns nothing but the model, of which it changes
  only the list of items. When the target is no item of the tree (or is \<^verbatim>\<open>nil\<close>), the
  model is as before. In every case the outline of the tree afterwards is the outline
  before without the items that are the target or lie below it: the target is removed
  with its whole subtree, and every other item keeps its place, its ancestors and its
  fields.
\<close>

theorem delete_item:
  "(target \<notin> Some ` refsOf (Items (document m)) \<longrightarrow> deleteItem target m = m)
   \<and> outline [] (Items (document (deleteItem target m)))
       = filter (\<lambda>(anc, d). target \<notin> Some ` set (anc @ [ref d])) (outline [] (Items (document m)))
   \<and> deleteItem target m
       = m\<lparr>document := (document m)\<lparr>Items := Items (document (deleteItem target m))\<rparr>\<rparr>"
  by (simp add: deleteItem_def removeFromList_absent outline_removeFromList)

theorem delete_item_witness:
  "Some 7 \<notin> Some ` refsOf (Items (document
      \<lparr>document = \<lparr>Path = ''todo.org'', Items =
         [addChild (newItem 1 (''**'', [], ''B'')) (newItem 0 (''*'', ''TODO'', ''A'')),
          newItem 2 (''*'', [], ''C'')]\<rparr>,
       cursor = 0, mode = modeConfirmDelete, statusMsg = [], editingItem = None,
       itemToDelete = Some 7, reorderMode = False\<rparr>))
   \<and> deleteItem (Some 7)
      \<lparr>document = \<lparr>Path = ''todo.org'', Items =
         [addChild (newItem 1 (''**'', [], ''B'')) (newItem 0 (''*'', ''TODO'', ''A'')),
          newItem 2 (''*'', [], ''C'')]\<rparr>,
       cursor = 0, mode = modeConfirmDelete, statusMsg = [], editingItem = None,
       itemToDelete = Some 7, reorderMode = False\<rparr>
     = \<lparr>document = \<lparr>Path = ''todo.org'', Items =
         [addChild (newItem 1 (''**'', [], ''B'')) (newItem 0 (''*'', ''TODO'', ''A'')),
          newItem 2 (''*'', [], ''C'')]\<rparr>,
       cursor = 0, mode = modeConfirmDelete, statusMsg = [], editingItem = None,
       itemToDelete = Some 7, reorderMode = False\<rparr>
   \<and> outline [] (Items (document (deleteItem (Some 0)
      \<lparr>document = \<lparr>Path = ''todo.org'', Items =
         [addChild (newItem 1 (''**'', [], ''B'')) (newItem 0 (''*'', ''TODO'', ''A'')),
          newItem 2 (''*'', [], ''C'')]\<rparr>,
       cursor = 0, mode = modeConfirmDelete, statusMsg = [], editingItem = None,
       itemToDelete = Some 7, reorderMode = False\<rparr>)))
     = [([], dat (newItem 2 (''*'', [], ''C'')))]"
proof -
  have h: "Some 7 \<notin> Some ` refsOf (Items (document
      \<lparr>document = \<lparr>Path = ''todo.org'', Items =
         [addChild (newItem 1 (''**'', [], ''B'')) (newItem 0 (''*'', ''TODO'', ''A'')),
          newItem 2 (''*'', [], ''C'')]\<rparr>,
       cursor = 0, mode = modeConfirmDelete, statusMsg = [], editingItem = None,
       itemToDelete = Some 7, reorderMode = False\<rparr>))"
    by (simp add: newItem_def)
  have "outline [] (Items (document (deleteItem (Some 0)
      \<lparr>document = \<lparr>Path = ''todo.org'', Items =
         [addChild (newItem 1 (''**'', [], ''B'')) (newItem 0 (''*'', ''TODO'', ''A'')),
          newItem 2 (''*'', [], ''C'')]\<rparr>,
       cursor = 0, mode = modeConfirmDelete, statusMsg = [], editingItem = None,
       itemToDelete = Some 7, reorderMode = False\<rparr>)))
     = [([], dat (newItem 2 (''*'', [], ''C'')))]"
    using delete_item [of "Some 0" "\<lparr>document = \<lparr>Path = ''todo.org'', Items =
         [addChild (newItem 1 (''**'', [], ''B'')) (newItem 0 (''*'', ''TODO'', ''A'')),
          newItem 2 (''*'', [], ''C'')]\<rparr>,
       cursor = 0, mode = modeConfirmDelete, statusMsg = [], editingItem = None,
       itemToDelete = Some 7, reorderMode = False\<rparr>"]
    by (simp add: newItem_def)
  with h delete_item [of "Some 7" "\<lparr>document = \<lparr>Path = ''todo.org'', Items =
         [addChild (newItem 1 (''**'', [], ''B'')) (newItem 0 (''*'', ''TODO'', ''A'')),
          newItem 2 (''*'', [], ''C'')]\<rparr>,
       cursor = 0, mode = modeConfirmDelete, statusMsg = [], editingItem = None,
       itemToDelete = Some 7, reorderMode = False\<rparr>"]
  show ?thesis by blast
qed

text \<open>
  The claim as stated fails where it promises a status: \<open>deleteItem\<close> has no result,
  on a target that is not in the tree it leaves the whole model as it is, and its caller
  sets the status \<^verbatim>\<open>Item deleted\<close> all the same.
\<close>

theorem delete_absent_reports_nothing_counterexample:
  "deleteItem (Some 7)
      \<lparr>document = \<lparr>Path = ''todo.org'', Items =
         [addChild (newItem 1 (''**'', [], ''B'')) (newItem 0 (''*'', ''TODO'', ''A'')),
          newItem 2 (''*'', [], ''C'')]\<rparr>,
       cursor = 0, mode = modeConfirmDelete, statusMsg = [], editingItem = None,
       itemToDelete = Some 7, reorderMode = False\<rparr>
     = \<lparr>document = \<lparr>Path = ''todo.org'', Items =
         [addChild (newItem 1 (''**'', [], ''B'')) (newItem 0 (''*'', ''TODO'', ''A'')),
          newItem 2 (''*'', [], ''C'')]\<rparr>,
       cursor = 0, mode = modeConfirmDelete, statusMsg = [], editingItem = None,
       itemToDelete = Some 7, reorderMode = False\<rparr>
   \<and> statusMsg (updateConfirmDelete (\<lambda>t. False) ''y''
      \<lparr>document = \<lparr>Path = ''todo.org'', Items =
         [addChild (newItem 1 (''**'', [], ''B'')) (newItem 0 (''*'', ''TODO'', ''A'')),
          newItem 2 (''*'', [], ''C'')]\<rparr>,
       cursor = 0, mode = modeConfirmDelete, statusMsg = [], editingItem = None,
       itemToDelete = Some 7, reorderMode = False\<rparr>)
     = ''Item deleted''
   \<and> Items (document (updateConfirmDelete (\<lambda>t. False) ''y''
      \<lparr>document = \<lparr>Path = ''todo.org'', Items =
         [addChild (newItem 1 (''**'', [], ''B'')) (newItem 0 (''*'', ''TODO'', ''A'')),
          newItem 2 (''*'', [], ''C'')]\<rparr>,
       cursor = 0, mode = modeConfirmDelete, statusMsg = [], editingItem = None,
       itemToDelete = Some 7, reorderMode = False\<rparr>))
     = [addChild (newItem 1 (''**'', [], ''B'')) (newItem 0 (''*'', ''TODO'', ''A'')),
          newItem 2 (''*'', [], ''C'')]"
  by (simp add: deleteItem_def updateConfirmDelete_def setStatus_def getVisibleItems_def
      GetAllItems_def newItem_def)

section \<open>Moving an item\<close>

lemma swapInList_spec:
  "snd (swapInList a b items) = neighbours a b items
   \<and> (\<not> neighbours a b items \<longrightarrow> fst (swapInList a b items) = items)"
proof (induction a b items rule: swapInList.induct)
  case (1 item1 item2)
  show ?case by simp
next
  case (2 item1 item2 d cs)
  obtain cs' r where c: "swapInList item1 item2 cs = (cs', r)"
    by (cases "swapInList item1 item2 cs")
  with 2 show ?case by simp
next
  case (3 item1 item2 d cs y rest)
  show ?case
  proof (cases "(ref d = item1 \<and> ref (dat y) = item2) \<or> (ref d = item2 \<and> ref (dat y) = item1)")
    case True
    then show ?thesis by auto
  next
    case False
    then have n1: "\<not> (ref d = item1 \<and> ref (dat y) = item2)"
      and n2: "\<not> (ref d = item2 \<and> ref (dat y) = item1)"
      by blast+
    obtain cs' r where c: "swapInList item1 item2 cs = (cs', r)"
      by (cases "swapInList item1 item2 cs")
    from "3.IH"(1) [OF n1 n2] c
    have ih1: "r = neighbours item1 item2 cs" "\<not> neighbours item1 item2 cs \<Longrightarrow> cs' = cs"
      by simp_all
    show ?thesis
    proof (cases r)
      case True
      with n1 n2 c ih1 show ?thesis by simp
    next
      case r: False
      obtain l' r' where l: "swapInList item1 item2 (y # rest) = (l', r')"
        by (cases "swapInList item1 item2 (y # rest)")
      have rF: "r = False" using r by simp
      from "3.IH"(2) [OF n1 n2 c [symmetric] rF] l
      have ih2: "r' = neighbours item1 item2 (y # rest)"
        "\<not> neighbours item1 item2 (y # rest) \<Longrightarrow> l' = y # rest"
        by simp_all
      have ncs: "\<not> neighbours item1 item2 cs" "cs' = cs"
        using ih1 rF by simp_all
      have c': "swapInList item1 item2 cs = (cs, False)"
        using c rF ncs(2) by simp
      have v: "swapInList item1 item2 (Item d cs # y # rest) = (Item d cs # l', r')"
        by (simp add: c' l n1 n2)
      have n: "neighbours item1 item2 (Item d cs # y # rest) = neighbours item1 item2 (y # rest)"
        by (simp add: n1 n2 ncs(1))
      show ?thesis
        unfolding v n using ih2 by simp
    qed
  qed
qed

lemma swapInList_found: "snd (swapInList a b items) = neighbours a b items"
  by (simp add: swapInList_spec)

lemma swapInList_unchanged:
  "\<not> neighbours a b items \<Longrightarrow> fst (swapInList a b items) = items"
  by (simp add: swapInList_spec)

lemma swapItems_not_neighbours:
  "\<not> neighbours a b (Items (document m)) \<Longrightarrow> swapItems a b m = m"
  by (simp add: swapItems_def swapInList_unchanged)

lemma move_across_levels:
  assumes "index (getVisibleItems soon m) (cursor m) = Inr x"
    and "index (getVisibleItems soon m) (cursor m + 1) = Inr y"
    and "Level (dat x) \<noteq> Level (dat y)"
  shows "moveItemDown soon m = Inr (m\<lparr>statusMsg := ''Cannot move across different levels''\<rparr>)"
  using assms
  by (auto simp: moveItemDown_def Let_def setStatus_def index_def split: if_splits)

text \<open>
  In the agenda, an item with a scheduled and a deadline line that are both due is listed
  twice. Moving it down from its first entry compares it with itself: the tree stays as
  it is, the cursor moves and the status says \<^verbatim>\<open>Item moved down\<close>.
\<close>

lemma parse_scheduled_and_due:
  "ParseOrgFile ''todo.org''
     (Contents ''* A\<newline>SCHEDULED: <2024-01-15 Mon>\<newline>DEADLINE: <2024-01-16 Tue>\<newline>'')
   = Inr \<lparr>Path = ''todo.org'',
      Items = [Item \<lparr>ref = 0, Level = 1, State = [], Title = ''A'',
        Scheduled = Some \<lparr>tYear = 2024, tMonth = 1, tDay = 15, tHour = 0, tMinute = 0, tSecond = 0, tNano = 0\<rparr>,
        Deadline = Some \<lparr>tYear = 2024, tMonth = 1, tDay = 16, tHour = 0, tMinute = 0, tSecond = 0, tNano = 0\<rparr>,
        Notes = [''SCHEDULED: <2024-01-15 Mon>'', ''DEADLINE: <2024-01-16 Tue>''],
        Folded = False, ClockEntries = []\<rparr> []]\<rparr>"
proof -
  have 1: "scanLines [] ''* A\<newline>SCHEDULED: <2024-01-15 Mon>\<newline>DEADLINE: <2024-01-16 Tue>\<newline>''
     = [''* A'', ''SCHEDULED: <2024-01-15 Mon>'', ''DEADLINE: <2024-01-16 Tue>'']"
    by code_simp
  have 2: "list_ex (\<lambda>l. MaxScanTokenSize \<le> length l)
     [''* A'', ''SCHEDULED: <2024-01-15 Mon>'', ''DEADLINE: <2024-01-16 Tue>''] = False"
    by (simp add: MaxScanTokenSize_def)
  have 3: "orgFile (foldl step (initial ''todo.org'')
     (map dropCR [''* A'', ''SCHEDULED: <2024-01-15 Mon>'', ''DEADLINE: <2024-01-16 Tue>'']))
   = \<lparr>Path = ''todo.org'',
      Items = [Item \<lparr>ref = 0, Level = 1, State = [], Title = ''A'',
        Scheduled = Some \<lparr>tYear = 2024, tMonth = 1, tDay = 15, tHour = 0, tMinute = 0, tSecond = 0, tNano = 0\<rparr>,
        Deadline = Some \<lparr>tYear = 2024, tMonth = 1, tDay = 16, tHour = 0, tMinute = 0, tSecond = 0, tNano = 0\<rparr>,
        Notes = [''SCHEDULED: <2024-01-15 Mon>'', ''DEADLINE: <2024-01-16 Tue>''],
        Folded = False, ClockEntries = []\<rparr> []]\<rparr>"
    by code_simp
  show ?thesis
    unfolding ParseOrgFile_def os_file.case Let_def 1 2 3 by simp
qed

lemma move_down_listed_twice:
  "moveItemDown (\<lambda>t. True)
     \<lparr>document =
      \<lparr>Path = ''todo.org'',
      Items = [Item \<lparr>ref = 0, Level = 1, State = [], Title = ''A'',
        Scheduled = Some \<lparr>tYear = 2024, tMonth = 1, tDay = 15, tHour = 0, tMinute = 0, tSecond = 0, tNano = 0\<rparr>,
        Deadline = Some \<lparr>tYear = 2024, tMonth = 1, tDay = 16, tHour = 0, tMinute = 0, tSecond = 0, tNano = 0\<rparr>,
        Notes = [''SCHEDULED: <2024-01-15 Mon>'', ''DEADLINE: <2024-01-16 Tue>''],
        Folded = False, ClockEntries = []\<rparr> []]\<rparr>,
      cursor = 0, mode = modeAgenda, statusMsg = [], editingItem = None,
      itemToDelete = None, reorderMode = False\<rparr>
   = Inr
     \<lparr>document =
      \<lparr>Path = ''todo.org'',
      Items = [Item \<lparr>ref = 0, Level = 1, State = [], Title = ''A'',
        Scheduled = Some \<lparr>tYear = 2024, tMonth = 1, tDay = 15, tHour = 0, tMinute = 0, tSecond = 0, tNano = 0\<rparr>,
        Deadline = Some \<lparr>tYear = 2024, tMonth = 1, tDay = 16, tHour = 0, tMinute = 0, tSecond = 0, tNano = 0\<rparr>,
        Notes = [''SCHEDULED: <2024-01-15 Mon>'', ''DEADLINE: <2024-01-16 Tue>''],
        Folded = False, ClockEntries = []\<rparr> []]\<rparr>,
      cursor = 1, mode = modeAgenda, statusMsg = ''Item moved down'', editingItem = None,
      itemToDelete = None, reorderMode = False\<rparr>"
  by (simp add: moveItemDown_def getVisibleItems_def getAgendaItems_def index_def swapItems_def
      setStatus_def)

text \<open>
  C8. The code at an input where the claim fails. The tree is what parsing the text
  \<^verbatim>\<open>** A\<close>, capturing \<^verbatim>\<open>X\<close> and adding the sub-task \<^verbatim>\<open>Y\<close> to \<^verbatim>\<open>X\<close> give: the roots
  \<^verbatim>\<open>X\<close> (level 1) and \<^verbatim>\<open>A\<close> (level 2), and \<^verbatim>\<open>Y\<close> (level 2) below \<^verbatim>\<open>X\<close>. With the cursor on
  \<^verbatim>\<open>Y\<close>, the next visible item is \<^verbatim>\<open>A\<close>, of the same level but in another list.
  \<open>moveItemDown\<close> leaves the tree as it is, and reports \<^verbatim>\<open>Item moved down\<close> with
  the cursor moved.
\<close>

theorem move_down_other_list:
  "\<not> neighbours 2 0 [addChild (newItem 2 (''**'', ''TODO'', ''Y'')) (newItem 1 (''*'', ''TODO'', ''X'')),
          newItem 0 (''**'', [], ''A'')]
   \<and> moveItemDown (\<lambda>t. False)
      \<lparr>document = \<lparr>Path = ''todo.org'', Items =
         [addChild (newItem 2 (''**'', ''TODO'', ''Y'')) (newItem 1 (''*'', ''TODO'', ''X'')),
          newItem 0 (''**'', [], ''A'')]\<rparr>,
       cursor = 1, mode = modeList, statusMsg = [], editingItem = None,
       itemToDelete = None, reorderMode = False\<rparr>
     = Inr \<lparr>document = \<lparr>Path = ''todo.org'', Items =
         [addChild (newItem 2 (''**'', ''TODO'', ''Y'')) (newItem 1 (''*'', ''TODO'', ''X'')),
          newItem 0 (''**'', [], ''A'')]\<rparr>,
       cursor = 2, mode = modeList, statusMsg = ''Item moved down'', editingItem = None,
       itemToDelete = None, reorderMode = False\<rparr>"
  by (simp add: moveItemDown_def getVisibleItems_def GetAllItems_def index_def swapItems_def
      setStatus_def newItem_def)

section \<open>What the serializer writes\<close>

lemma unlines_simps [simp]:
  "unlines [] = []"
  "unlines (l # ls) = l @ [CHR 0x0A] @ unlines ls"
  "unlines (ls @ ms) = unlines ls @ unlines ms"
  by (simp_all add: unlines_def)

lemma noteFlags_fold:
  "foldl (\<lambda>(hasScheduled, hasDeadline, hasLogbook) note.
              (if Contains note ''SCHEDULED:'' then True else hasScheduled,
               if Contains note ''DEADLINE:'' then True else hasDeadline,
               if Contains note '':LOGBOOK:'' then True else hasLogbook))
           (a, b, c) ns
   = (a \<or> marked ''SCHEDULED:'' ns, b \<or> marked ''DEADLINE:'' ns,
      c \<or> marked '':LOGBOOK:'' ns)"
  by (induction ns arbitrary: a b c) (simp_all add: marked_def)

lemma noteFlags_marked:
  "noteFlags ns
   = (marked ''SCHEDULED:'' ns, marked ''DEADLINE:'' ns, marked '':LOGBOOK:'' ns)"
  unfolding noteFlags_def noteFlags_fold by simp

lemma write_notes:
  "foldl (\<lambda>w note. WriteString w (note @ [CHR 0x0A])) w ns = w @ unlines ns"
  by (induction ns arbitrary: w) (simp_all add: WriteString_def)

lemma write_clocks: "foldl writeClock w es = w @ unlines (map specClockLine es)"
  by (induction es arbitrary: w)
     (simp_all add: writeClock_def WriteString_def specClockLine_def Let_def split: option.splits)

lemma writeHead_lines: "writeHead w d = w @ unlines (specHead d)"
  unfolding writeHead_def Let_def noteFlags_marked prod.case write_notes write_clocks
  by (simp add: specHead_def specHeading_def specScheduled_def specDeadline_def specDrawer_def
      WriteString_def split: option.splits)

lemma writeItem_lines: "writeItem w item = w @ unlines (specLines item)"
proof (induction w item rule: writeItem.induct)
  case (1 w d cs)
  have "foldl writeItem v cs = v @ unlines (concat (map specLines cs))" for v
    using 1
  proof (induction cs arbitrary: v)
    case Nil
    then show ?case by simp
  next
    case (Cons c cs)
    have "writeItem v c = v @ unlines (specLines c)"
      by (rule Cons.prems) simp
    moreover have "foldl writeItem u cs = u @ unlines (concat (map specLines cs))" for u
      by (rule Cons.IH) (simp add: Cons.prems)
    ultimately show ?case by simp
  qed
  then show ?case by (simp add: writeHead_lines)
qed

lemma write_items: "foldl writeItem w items = w @ unlines (concat (map specLines items))"
  by (induction items arbitrary: w) (simp_all add: writeItem_lines)

lemma Save_lines: "Save orgf = unlines (concat (map specLines (Items orgf)))"
  by (simp add: Save_def write_items)

text \<open>
  C7. For every item the serializer writes, each as a line of its own and in this
  order: the heading line (a star for each level, the state when it is not None, the
  title), a scheduled line when the field is set and no note contains \<^verbatim>\<open>SCHEDULED:\<close>,
  a deadline line when the field is set and no note contains \<^verbatim>\<open>DEADLINE:\<close>, the
  drawer with a line for every clock entry when there are entries and no note contains
  \<^verbatim>\<open>:LOGBOOK:\<close>, the notes as they are, and then each child in the same way; \<open>Save\<close>
  writes the roots so.
\<close>

theorem serializer_writes_spec_lines:
  "writeItem w item = w @ unlines (specLines item)
   \<and> Save orgf = unlines (concat (map specLines (Items orgf)))"
  by (simp add: writeItem_lines Save_lines)

section \<open>What the parser builds\<close>

lemma stateToken_kw:
  "stateToken s = Some (kw, r) \<Longrightarrow> kw \<in> {''TODO'', ''PROG'', ''BLOCK'', ''DONE''}"
  by (auto simp: stateToken_def split: if_splits)

lemma headingGroups_wf:
  assumes "headingGroups line = Some (m1, m2, m3)"
  shows "m1 \<noteq> [] \<and> m3 \<noteq> [] \<and> m2 \<in> {[], ''TODO'', ''PROG'', ''BLOCK'', ''DONE''}"
proof -
  let ?r2 = "dropWhile reSpace (dropWhile (\<lambda>c. c = CHR ''*'') line)"
  show ?thesis
  proof (cases "stateToken ?r2")
    case None
    with assms show ?thesis
      by (auto simp: headingGroups_def Let_def split: if_splits)
  next
    case (Some a)
    obtain kw r3 where a: "a = (kw, r3)" by (cases a)
    from Some a have "kw \<in> {''TODO'', ''PROG'', ''BLOCK'', ''DONE''}"
      by (auto dest: stateToken_kw)
    with assms Some a show ?thesis
      by (auto simp: headingGroups_def Let_def split: if_splits)
  qed
qed

lemma headingPattern_wf:
  assumes "headingPattern line = Some (m1, m2, m3)"
  shows "m1 \<noteq> [] \<and> m3 \<noteq> [] \<and> m2 \<in> {[], ''TODO'', ''PROG'', ''BLOCK'', ''DONE''}"
proof -
  from assms have "headingGroups line = Some (m1, m2, m3)"
    by (auto simp: headingPattern_def split: option.splits if_splits)
  then show ?thesis by (rule headingGroups_wf)
qed

lemma newItem_good: "headingPattern line = Some m \<Longrightarrow> everyGood (newItem a m)"
  by (cases m)
     (auto simp: newItem_def good_def wellFormed_def state_defs Suc_le_eq
           dest!: headingPattern_wf)

lemma popStack_top:
  "popStack its level st = p # st' \<Longrightarrow> deref its p = Some x \<Longrightarrow> Level (dat x) < level"
  by (induction st) (auto split: option.splits if_splits)

lemma deref_modify:
  "deref (modify its p g) p = map_option g (deref its p)"
  by (induction its p arbitrary: g rule: deref.induct) auto

lemma modify_levels:
  "(\<And>x. deref its p = Some x \<Longrightarrow> Level (dat (g x)) = Level (dat x)) \<Longrightarrow>
     map (\<lambda>x. Level (dat x)) (modify its p g) = map (\<lambda>x. Level (dat x)) its"
  by (cases p) (auto simp: map_update list_update_same_conv)

lemma list_all_update:
  "list_all P xs \<Longrightarrow> P y \<Longrightarrow> list_all P (xs[i := y])"
  by (induction xs arbitrary: i) (auto split: nat.splits)

lemma good_levels:
  "map (\<lambda>x. Level (dat x)) cs' = map (\<lambda>x. Level (dat x)) cs \<Longrightarrow>
     good (Item d cs') = good (Item d cs)"
proof -
  assume a: "map (\<lambda>x. Level (dat x)) cs' = map (\<lambda>x. Level (dat x)) cs"
  have "list_all (\<lambda>c. Level d < Level (dat c)) cs
        = list_all (\<lambda>l. Level d < l) (map (\<lambda>x. Level (dat x)) cs)" for cs
    by (simp add: list_all_iff)
  with a show ?thesis by (simp add: good_def)
qed

lemma deref_good:
  "list_all everyGood its \<Longrightarrow> deref its p = Some x \<Longrightarrow> everyGood x"
proof (induction its p rule: deref.induct)
  case (1 its)
  then show ?case by simp
next
  case (2 its i p)
  show ?case
  proof (cases "i < length its")
    case False
    with "2.prems" show ?thesis by simp
  next
    case i: True
    then have gi: "everyGood (its ! i)"
      using "2.prems"(1) by (simp add: list_all_length)
    show ?thesis
    proof (cases "p = []")
      case True
      with i gi "2.prems"(2) show ?thesis by simp
    next
      case False
      have "list_all everyGood (Children (its ! i))"
        using gi by (cases "its ! i") simp
      moreover have "deref (Children (its ! i)) p = Some x"
        using "2.prems"(2) i False by simp
      ultimately show ?thesis
        by (rule "2.IH" [OF i False])
    qed
  qed
qed

lemma modify_good:
  assumes "list_all everyGood its"
    and "\<And>x. deref its p = Some x \<Longrightarrow> everyGood x \<Longrightarrow>
           everyGood (g x) \<and> Level (dat (g x)) = Level (dat x)"
  shows "list_all everyGood (modify its p g)"
  using assms
proof (induction its p arbitrary: g rule: deref.induct)
  case (1 its)
  then show ?case by simp
next
  case (2 its i p)
  show ?case
  proof (cases "i < length its")
    case False
    with "2.prems"(1) show ?thesis by simp
  next
    case i: True
    then have gi: "everyGood (its ! i)"
      using "2.prems"(1) by (simp add: list_all_length)
    show ?thesis
    proof (cases "p = []")
      case True
      then have "deref its (i # p) = Some (its ! i)"
        using i by simp
      from "2.prems"(2) [OF this gi] have "everyGood (g (its ! i))" ..
      with "2.prems"(1) have "list_all everyGood (its[i := g (its ! i)])"
        by (rule list_all_update)
      with True i show ?thesis by simp
    next
      case False
      obtain d cs where y: "its ! i = Item d cs" by (cases "its ! i")
      have cs: "list_all everyGood cs" and gd: "good (Item d cs)"
        using gi y by simp_all
      have st: "everyGood (g x) \<and> Level (dat (g x)) = Level (dat x)"
        if "deref cs p = Some x" "everyGood x" for x
      proof (rule "2.prems"(2))
        show "deref its (i # p) = Some x"
          using that(1) i False y by simp
        show "everyGood x" by (rule that(2))
      qed
      have 1: "list_all everyGood (modify cs p g)"
      proof -
        have "list_all everyGood (modify (Children (its ! i)) p g)"
        proof (rule "2.IH" [OF i False])
          show "list_all everyGood (Children (its ! i))"
            using cs y by simp
          show "everyGood (g x) \<and> Level (dat (g x)) = Level (dat x)"
            if "deref (Children (its ! i)) p = Some x" "everyGood x" for x
            using that st [of x] y by simp
        qed
        then show ?thesis using y by simp
      qed
      have "Level (dat (g x)) = Level (dat x)" if a: "deref cs p = Some x" for x
      proof -
        have "everyGood x" using cs a by (rule deref_good)
        from st [OF a this] show ?thesis ..
      qed
      then have "map (\<lambda>x. Level (dat x)) (modify cs p g) = map (\<lambda>x. Level (dat x)) cs"
        by (rule modify_levels)
      from good_levels [OF this, of d] have "good (Item d (modify cs p g))"
        using gd by simp
      with 1 have "everyGood (Item d (modify cs p g))" by simp
      with "2.prems"(1) have "list_all everyGood (its[i := Item d (modify cs p g)])"
        by (rule list_all_update)
      with i False y show ?thesis by simp
    qed
  qed
qed

lemma setItems_simps [simp]:
  "Items (orgFile (setItems its s)) = its"
  "Path (orgFile (setItems its s)) = Path (orgFile s)"
  "currentItem (setItems its s) = currentItem s"
  "itemStack (setItems its s) = itemStack s"
  "inCodeBlock (setItems its s) = inCodeBlock s"
  "inLogbookDrawer (setItems its s) = inLogbookDrawer s"
  "allocated (setItems its s) = allocated s"
  by (simp_all add: setItems_def)

lemma keepsHead_appendNote: "keepsHead (appendNote line)"
  by (simp add: keepsHead_def appendNote_def)

lemma keepsHead_content: "keepsHead (content line)"
  by (simp add: keepsHead_def content_def keepNote_def appendNote_def addClock_def
      setDeadline_def setScheduled_def Let_def split: option.splits prod.splits)

lemma upd_good:
  "keepsHead f \<Longrightarrow> everyGood x \<Longrightarrow>
     everyGood (upd f x) \<and> Level (dat (upd f x)) = Level (dat x)"
  by (cases x) (simp add: keepsHead_def good_def wellFormed_def)

lemma addChild_good:
  "everyGood x \<Longrightarrow> everyGood c \<Longrightarrow> Level (dat x) < Level (dat c) \<Longrightarrow>
     everyGood (addChild c x) \<and> Level (dat (addChild c x)) = Level (dat x)"
  by (cases x) (simp add: good_def)

lemma modify_upd_good:
  "keepsHead f \<Longrightarrow> list_all everyGood its \<Longrightarrow> list_all everyGood (modify its p (upd f))"
  by (rule modify_good) (simp_all add: upd_good)

lemma noteToCurrent_good:
  "list_all everyGood (Items (orgFile s)) \<Longrightarrow>
     list_all everyGood (Items (orgFile (noteToCurrent line s)))"
  by (simp add: noteToCurrent_def modify_upd_good keepsHead_appendNote split: option.splits)

lemma heading_good:
  assumes "list_all everyGood (Items (orgFile s))" and "headingPattern line = Some m"
  shows "list_all everyGood (Items (orgFile (heading m s)))"
proof -
  let ?item = "newItem (allocated s) m"
  let ?its = "Items (orgFile s)"
  let ?st = "popStack ?its (Level (dat ?item)) (itemStack s)"
  have item: "everyGood ?item"
    using assms(2) by (rule newItem_good)
  show ?thesis
  proof (cases ?st)
    case Nil
    with assms(1) item show ?thesis
      by (simp add: heading_def Let_def)
  next
    case (Cons parent rest)
    show ?thesis
    proof (cases "deref ?its parent")
      case None
      with Cons assms(1) show ?thesis
        by (simp add: heading_def Let_def)
    next
      case (Some x)
      have "list_all everyGood (modify ?its parent (addChild ?item))"
      proof (rule modify_good [OF assms(1)])
        fix y
        assume y: "deref ?its parent = Some y" "everyGood y"
        from popStack_top [OF Cons y(1)] have "Level (dat y) < Level (dat ?item)" .
        with y(2) item
        show "everyGood (addChild ?item y) \<and> Level (dat (addChild ?item y)) = Level (dat y)"
          by (simp add: addChild_good)
      qed
      with Cons Some show ?thesis
        by (simp add: heading_def Let_def)
    qed
  qed
qed

lemma step_good:
  assumes "list_all everyGood (Items (orgFile s))"
  shows "list_all everyGood (Items (orgFile (step s line)))"
proof -
  have flag: "list_all everyGood (Items (orgFile (noteToCurrent line (s\<lparr>inLogbookDrawer := b\<rparr>))))"
    "list_all everyGood (Items (orgFile (noteToCurrent line (s\<lparr>inCodeBlock := b\<rparr>))))" for b
    using assms by (simp_all add: noteToCurrent_good)
  have nt: "list_all everyGood (Items (orgFile (noteToCurrent line s)))"
    using assms by (rule noteToCurrent_good)
  have head: "list_all everyGood (Items (orgFile (heading m s)))"
    if "headingPattern line = Some m" for m
    using assms that by (rule heading_good)
  have cont: "list_all everyGood (modify (Items (orgFile s)) p (upd (content line)))" for p
    using keepsHead_content assms by (rule modify_upd_good)
  show ?thesis
    unfolding step_def
    using flag nt head cont assms
    by (simp split: option.splits)
qed

lemma steps_good:
  "list_all everyGood (Items (orgFile s)) \<Longrightarrow>
     list_all everyGood (Items (orgFile (foldl step s ls)))"
  by (induction ls arbitrary: s) (simp_all add: step_good)

lemma parsed_good:
  assumes "ParseOrgFile path f = Inr orgf"
  shows "list_all everyGood (Items orgf)"
proof (cases f)
  case NotExist
  with assms show ?thesis by (auto simp: ParseOrgFile_def)
next
  case Unreadable
  with assms show ?thesis by (simp add: ParseOrgFile_def)
next
  case (Contents bytes)
  have "list_all everyGood (Items (orgFile (initial path)))"
    by (simp add: initial_def)
  then have "list_all everyGood
     (Items (orgFile (foldl step (initial path) (map dropCR (scanLines [] bytes)))))"
    by (rule steps_good)
  with assms Contents show ?thesis
    by (auto simp: ParseOrgFile_def Let_def split: if_splits)
qed

lemma everyGood_subitems:
  "everyGood x \<Longrightarrow> y \<in> set (subitems x) \<Longrightarrow> good y"
  by (induction x arbitrary: y) (auto simp: list_all_iff)

lemma parsed_items_good:
  assumes "ParseOrgFile path f = Inr orgf" and "item \<in> set (allItems (Items orgf))"
  shows "good item"
  using parsed_good [OF assms(1)] assms(2)
  by (auto simp: allItems_def list_all_iff dest: everyGood_subitems)

text \<open>The text \<^verbatim>\<open>* TODO A\<close>, \<^verbatim>\<open>** B\<close>, \<^verbatim>\<open>* C\<close> parses to the roots A and C with B below A.\<close>

lemma scan_outline:
  "scanLines [] ''* TODO A\<newline>** B\<newline>* C\<newline>'' = [''* TODO A'', ''** B'', ''* C'']"
  by code_simp

lemma steps_outline:
  "orgFile (foldl step (initial ''todo.org'') [''* TODO A'', ''** B'', ''* C''])
   = \<lparr>Path = ''todo.org'',
      Items = [addChild (newItem 1 (''**'', [], ''B'')) (newItem 0 (''*'', ''TODO'', ''A'')),
               newItem 2 (''*'', [], ''C'')]\<rparr>"
  by code_simp

lemma parse_outline:
  "ParseOrgFile ''todo.org'' (Contents ''* TODO A\<newline>** B\<newline>* C\<newline>'')
   = Inr \<lparr>Path = ''todo.org'',
      Items = [addChild (newItem 1 (''**'', [], ''B'')) (newItem 0 (''*'', ''TODO'', ''A'')),
               newItem 2 (''*'', [], ''C'')]\<rparr>"
proof -
  have 1: "list_ex (\<lambda>l. MaxScanTokenSize \<le> length l) [''* TODO A'', ''** B'', ''* C''] = False"
    by (simp add: MaxScanTokenSize_def)
  have 2: "map dropCR [''* TODO A'', ''** B'', ''* C''] = [''* TODO A'', ''** B'', ''* C'']"
    by (simp add: dropCR_def)
  show ?thesis
    unfolding ParseOrgFile_def os_file.case Let_def scan_outline 1 2 steps_outline
    by simp
qed

text \<open>
  C10. Every item of a parsed document is well formed: its level is at least 1, its
  title is not empty, and its state is one of None, TODO, PROG, BLOCK and DONE.
\<close>

theorem parsed_items_well_formed:
  assumes "ParseOrgFile path f = Inr orgf" and "item \<in> set (allItems (Items orgf))"
  shows "1 \<le> Level (dat item) \<and> Title (dat item) \<noteq> []
       \<and> State (dat item) \<in> {StateNone, StateTODO, StatePROG, StateBLOCK, StateDONE}"
  using parsed_items_good [OF assms] by (simp add: good_def wellFormed_def)

theorem parsed_items_well_formed_witness:
  "ParseOrgFile ''todo.org'' (Contents ''* TODO A\<newline>** B\<newline>* C\<newline>'')
     = Inr \<lparr>Path = ''todo.org'',
        Items = [addChild (newItem 1 (''**'', [], ''B'')) (newItem 0 (''*'', ''TODO'', ''A'')),
                 newItem 2 (''*'', [], ''C'')]\<rparr>
   \<and> newItem 1 (''**'', [], ''B'')
       \<in> set (allItems (Items \<lparr>Path = ''todo.org'',
        Items = [addChild (newItem 1 (''**'', [], ''B'')) (newItem 0 (''*'', ''TODO'', ''A'')),
                 newItem 2 (''*'', [], ''C'')]\<rparr>))
   \<and> 1 \<le> Level (dat (newItem 1 (''**'', [], ''B'')))
   \<and> Title (dat (newItem 1 (''**'', [], ''B''))) \<noteq> []
   \<and> State (dat (newItem 1 (''**'', [], ''B'')))
       \<in> {StateNone, StateTODO, StatePROG, StateBLOCK, StateDONE}"
proof -
  have m: "newItem 1 (''**'', [], ''B'')
       \<in> set (allItems (Items \<lparr>Path = ''todo.org'',
        Items = [addChild (newItem 1 (''**'', [], ''B'')) (newItem 0 (''*'', ''TODO'', ''A'')),
                 newItem 2 (''*'', [], ''C'')]\<rparr>))"
    by (simp add: allItems_def newItem_def)
  from parse_outline m parsed_items_well_formed [OF parse_outline m]
  show ?thesis by blast
qed

text \<open>
  C3. In every parsed document, the level of each child of an item is strictly greater
  than the level of the item.
\<close>

theorem child_level_above_parent:
  assumes "ParseOrgFile path f = Inr orgf"
    and "parent \<in> set (allItems (Items orgf))"
    and "child \<in> set (Children parent)"
  shows "Level (dat parent) < Level (dat child)"
  using parsed_items_good [OF assms(1,2)] assms(3) by (simp add: good_def list_all_iff)

theorem child_level_above_parent_witness:
  "ParseOrgFile ''todo.org'' (Contents ''* TODO A\<newline>** B\<newline>* C\<newline>'')
     = Inr \<lparr>Path = ''todo.org'',
        Items = [addChild (newItem 1 (''**'', [], ''B'')) (newItem 0 (''*'', ''TODO'', ''A'')),
                 newItem 2 (''*'', [], ''C'')]\<rparr>
   \<and> addChild (newItem 1 (''**'', [], ''B'')) (newItem 0 (''*'', ''TODO'', ''A''))
       \<in> set (allItems (Items \<lparr>Path = ''todo.org'',
        Items = [addChild (newItem 1 (''**'', [], ''B'')) (newItem 0 (''*'', ''TODO'', ''A'')),
                 newItem 2 (''*'', [], ''C'')]\<rparr>))
   \<and> newItem 1 (''**'', [], ''B'')
       \<in> set (Children (addChild (newItem 1 (''**'', [], ''B'')) (newItem 0 (''*'', ''TODO'', ''A''))))
   \<and> Level (dat (addChild (newItem 1 (''**'', [], ''B'')) (newItem 0 (''*'', ''TODO'', ''A''))))
       < Level (dat (newItem 1 (''**'', [], ''B'')))"
proof -
  have p: "addChild (newItem 1 (''**'', [], ''B'')) (newItem 0 (''*'', ''TODO'', ''A''))
       \<in> set (allItems (Items \<lparr>Path = ''todo.org'',
        Items = [addChild (newItem 1 (''**'', [], ''B'')) (newItem 0 (''*'', ''TODO'', ''A'')),
                 newItem 2 (''*'', [], ''C'')]\<rparr>))"
    by (simp add: allItems_def newItem_def)
  have c: "newItem 1 (''**'', [], ''B'')
       \<in> set (Children (addChild (newItem 1 (''**'', [], ''B'')) (newItem 0 (''*'', ''TODO'', ''A''))))"
    by (simp add: newItem_def)
  from parse_outline p c child_level_above_parent [OF parse_outline p c]
  show ?thesis by blast
qed

section \<open>Lines that are not headings\<close>

lemma asciiSpace_not_marker: "asciiSpace c \<Longrightarrow> c \<noteq> CHR '':'' \<and> c \<noteq> CHR ''#''"
  by (auto simp: asciiSpace_def)

lemma blank_no_marker:
  "TrimSpace_empty line \<Longrightarrow> CHR '':'' \<notin> set line \<and> CHR ''#'' \<notin> set line"
proof (induction line rule: TrimSpace_empty.induct)
  case 1
  then show ?case by simp
next
  case (2 c)
  then show ?case by (auto dest: asciiSpace_not_marker)
next
  case (3 c d)
  then show ?case by (auto dest: asciiSpace_not_marker split: if_splits)
next
  case (4 c d e s)
  show ?case
  proof (cases "asciiSpace c")
    case True
    with 4 show ?thesis by (auto dest: asciiSpace_not_marker)
  next
    case False
    with "4.prems" have "c \<noteq> CHR '':''" "c \<noteq> CHR ''#''" "d \<noteq> CHR '':''" "d \<noteq> CHR ''#''"
      by (auto split: if_splits)
    moreover have "CHR '':'' \<notin> set (e # s) \<and> CHR ''#'' \<notin> set (e # s)"
      using False 4 by (auto split: if_splits)
    ultimately show ?thesis by simp
  qed
qed

lemma HasPrefix_hd: "HasPrefix s (c # p) \<Longrightarrow> c \<in> set s"
  by (cases s) (auto simp: HasPrefix_def)

lemma blank_no_boundary:
  assumes "TrimSpace_empty line"
  shows "\<not> drawerStart line" "\<not> drawerEnd line" "\<not> codeBlockStart line" "\<not> codeBlockEnd line"
proof -
  have "c \<notin> set (dropWhile reSpace line)" if "c = CHR '':'' \<or> c = CHR ''#''" for c
    using blank_no_marker [OF assms] that by (auto dest: set_dropWhileD)
  then show "\<not> drawerStart line" "\<not> drawerEnd line" "\<not> codeBlockStart line"
    "\<not> codeBlockEnd line"
    by (auto simp: drawerStart_def drawerEnd_def codeBlockStart_def codeBlockEnd_def Let_def
        dest!: HasPrefix_hd)
qed

lemma Notes_content:
  "Notes (content line d)
   = (if TrimSpace_empty line \<and> Notes d = [] then Notes d else Notes d @ [line])"
  by (simp add: content_def keepNote_def appendNote_def addClock_def setDeadline_def
      setScheduled_def Let_def split: option.splits prod.splits)

lemma noteToCurrent_notes:
  assumes "currentItem s = Some p" and "deref (Items (orgFile s)) p = Some x"
  shows "\<exists>x'. deref (Items (orgFile (noteToCurrent line s))) p = Some x'
           \<and> currentItem (noteToCurrent line s) = Some p
           \<and> Notes (dat x') = Notes (dat x) @ [line]"
  using assms
  by (cases x) (simp add: noteToCurrent_def deref_modify appendNote_def)

text \<open>
  C2, as amended. A line that does not match the heading grammar, read while an item is
  open, is appended as it is to the notes of that item, whatever the directive patterns
  and the timestamp parsers make of it, with one exception: outside a code block, a line
  that is empty after trimming white space is dropped while the notes of the item are
  still empty.
\<close>

theorem non_heading_line_kept:
  assumes "currentItem s = Some p"
    and "deref (Items (orgFile s)) p = Some x"
    and "headingPattern line = None"
  shows "\<exists>x'. deref (Items (orgFile (step s line))) p = Some x'
           \<and> currentItem (step s line) = Some p
           \<and> Notes (dat x')
               = (if TrimSpace_empty line \<and> Notes (dat x) = [] \<and> \<not> inCodeBlock s
                  then Notes (dat x) else Notes (dat x) @ [line])"
proof -
  have flag: "\<exists>x'. deref (Items (orgFile (noteToCurrent line s'))) p = Some x'
           \<and> currentItem (noteToCurrent line s') = Some p
           \<and> Notes (dat x') = Notes (dat x) @ [line]"
    if "currentItem s' = currentItem s" "Items (orgFile s') = Items (orgFile s)" for s'
    by (rule noteToCurrent_notes) (simp_all add: that assms)
  show ?thesis
  proof (cases "drawerStart line \<or> (drawerEnd line \<and> inLogbookDrawer s) \<or> codeBlockStart line
      \<or> codeBlockEnd line \<or> inCodeBlock s")
    case True
    then have nb: "\<not> TrimSpace_empty line \<or> inCodeBlock s"
      using blank_no_boundary [of line] by blast
    have "\<exists>s'. step s line = noteToCurrent line s' \<and> currentItem s' = currentItem s
        \<and> Items (orgFile s') = Items (orgFile s)"
      using True by (auto simp: step_def)
    then obtain s' where "step s line = noteToCurrent line s'" "currentItem s' = currentItem s"
      "Items (orgFile s') = Items (orgFile s)"
      by blast
    with flag [of s'] nb show ?thesis by auto
  next
    case False
    then have st: "step s line = setItems (modify (Items (orgFile s)) p (upd (content line))) s"
      using assms(1,3) by (auto simp: step_def)
    obtain d cs where x: "x = Item d cs" by (cases x)
    have "deref (Items (orgFile (step s line))) p = Some (Item (content line d) cs)"
      using assms(2) by (simp add: st deref_modify x)
    moreover have "currentItem (step s line) = Some p"
      using assms(1) by (simp add: st)
    moreover have "Notes (content line d)
               = (if TrimSpace_empty line \<and> Notes (dat x) = [] \<and> \<not> inCodeBlock s
                  then Notes (dat x) else Notes (dat x) @ [line])"
      using False by (simp add: Notes_content x)
    ultimately show ?thesis by simp
  qed
qed

theorem non_heading_line_kept_witness:
  "currentItem
       \<lparr>orgFile = \<lparr>Path = ''todo.org'', Items = [newItem 0 (''*'', [], ''A'')]\<rparr>,
        currentItem = Some [0], itemStack = [[0]], inCodeBlock = False,
        inLogbookDrawer = False, allocated = 1\<rparr> = Some [0]
   \<and> deref (Items (orgFile
       \<lparr>orgFile = \<lparr>Path = ''todo.org'', Items = [newItem 0 (''*'', [], ''A'')]\<rparr>,
        currentItem = Some [0], itemStack = [[0]], inCodeBlock = False,
        inLogbookDrawer = False, allocated = 1\<rparr>)) [0] = Some (newItem 0 (''*'', [], ''A''))
   \<and> headingPattern ''SCHEDULED: <not a date>'' = None
   \<and> (\<exists>x'. deref (Items (orgFile (step
       \<lparr>orgFile = \<lparr>Path = ''todo.org'', Items = [newItem 0 (''*'', [], ''A'')]\<rparr>,
        currentItem = Some [0], itemStack = [[0]], inCodeBlock = False,
        inLogbookDrawer = False, allocated = 1\<rparr>
       ''SCHEDULED: <not a date>''))) [0] = Some x'
       \<and> currentItem (step
       \<lparr>orgFile = \<lparr>Path = ''todo.org'', Items = [newItem 0 (''*'', [], ''A'')]\<rparr>,
        currentItem = Some [0], itemStack = [[0]], inCodeBlock = False,
        inLogbookDrawer = False, allocated = 1\<rparr>
       ''SCHEDULED: <not a date>'') = Some [0]
       \<and> Notes (dat x')
           = (if TrimSpace_empty ''SCHEDULED: <not a date>'' \<and> Notes (dat (newItem 0 (''*'', [], ''A''))) = []
                 \<and> \<not> inCodeBlock
       \<lparr>orgFile = \<lparr>Path = ''todo.org'', Items = [newItem 0 (''*'', [], ''A'')]\<rparr>,
        currentItem = Some [0], itemStack = [[0]], inCodeBlock = False,
        inLogbookDrawer = False, allocated = 1\<rparr>
              then Notes (dat (newItem 0 (''*'', [], ''A''))) else Notes (dat (newItem 0 (''*'', [], ''A''))) @ [''SCHEDULED: <not a date>'']))"
proof -
  have h1: "currentItem
       \<lparr>orgFile = \<lparr>Path = ''todo.org'', Items = [newItem 0 (''*'', [], ''A'')]\<rparr>,
        currentItem = Some [0], itemStack = [[0]], inCodeBlock = False,
        inLogbookDrawer = False, allocated = 1\<rparr> = Some [0]"
    by simp
  have h2: "deref (Items (orgFile
       \<lparr>orgFile = \<lparr>Path = ''todo.org'', Items = [newItem 0 (''*'', [], ''A'')]\<rparr>,
        currentItem = Some [0], itemStack = [[0]], inCodeBlock = False,
        inLogbookDrawer = False, allocated = 1\<rparr>)) [0] = Some (newItem 0 (''*'', [], ''A''))"
    by simp
  have h3: "headingPattern ''SCHEDULED: <not a date>'' = None"
    by code_simp
  from h1 h2 h3 non_heading_line_kept [OF h1 h2 h3]
  show ?thesis by blast
qed

text \<open>
  The claim as stated fails on a blank line right after a heading: the empty second
  line of the text is in no item's notes.
\<close>

lemma scan_blank_after_heading:
  "scanLines [] ''* A\<newline>\<newline>note\<newline>'' = [''* A'', [], ''note'']"
  by code_simp

lemma steps_blank_after_heading:
  "orgFile (foldl step (initial ''todo.org'') [''* A'', [], ''note''])
   = \<lparr>Path = ''todo.org'',
      Items = [Item \<lparr>ref = 0, Level = 1, State = [], Title = ''A'', Scheduled = None,
        Deadline = None, Notes = [''note''], Folded = False, ClockEntries = []\<rparr> []]\<rparr>"
  by code_simp

theorem blank_line_dropped_counterexample:
  "headingPattern [] = None
   \<and> ParseOrgFile ''todo.org'' (Contents ''* A\<newline>\<newline>note\<newline>'')
     = Inr \<lparr>Path = ''todo.org'',
        Items = [Item \<lparr>ref = 0, Level = 1, State = [], Title = ''A'', Scheduled = None,
          Deadline = None, Notes = [''note''], Folded = False, ClockEntries = []\<rparr> []]\<rparr>"
proof -
  have 0: "headingPattern [] = None"
    by code_simp
  have 1: "list_ex (\<lambda>l. MaxScanTokenSize \<le> length l) [''* A'', [], ''note''] = False"
    by (simp add: MaxScanTokenSize_def)
  have 2: "map dropCR [''* A'', [], ''note''] = [''* A'', [], ''note'']"
    by (simp add: dropCR_def)
  show ?thesis
    unfolding ParseOrgFile_def os_file.case Let_def scan_blank_after_heading 1 2
      steps_blank_after_heading
    using 0 by simp
qed

section \<open>The pointers of the parser\<close>

lemma update_last: "its \<noteq> [] \<Longrightarrow> its[length its - Suc 0 := y] = butlast its @ [y]"
  by (induction its rule: rev_induct) (simp_all add: list_update_append)

lemma nth_last: "its \<noteq> [] \<Longrightarrow> its ! (length its - Suc 0) = last its"
  by (simp add: last_conv_nth)

lemma onSpine_deref: "onSpine its p \<Longrightarrow> \<exists>x. deref its p = Some x"
proof (induction its p rule: onSpine.induct)
  case (1 its)
  then show ?case by simp
next
  case (2 its i p)
  then show ?case by (cases "p = []") (auto simp: nth_last)
qed

lemma onSpine_prefix:
  "onSpine its p \<Longrightarrow> q \<noteq> [] \<Longrightarrow> take (length q) p = q \<Longrightarrow> onSpine its q"
proof (induction its p arbitrary: q rule: onSpine.induct)
  case (1 its)
  then show ?case by simp
next
  case (2 its i p)
  obtain j q' where q: "q = j # q'" using "2.prems"(2) by (cases q) auto
  from "2.prems"(3) q have j: "j = i" and t: "take (length q') p = q'" by simp_all
  show ?case
  proof (cases "q' = []")
    case True
    with "2.prems"(1) q j show ?thesis by simp
  next
    case False
    with t have "p \<noteq> []" by auto
    with "2.prems"(1) have "onSpine (Children (last its)) p" by simp
    from "2.IH" [OF this False t] "2.prems"(1) q j False show ?thesis by simp
  qed
qed

lemma chain_prefix_of_top:
  "chain (p # st) \<Longrightarrow> q \<in> set st \<Longrightarrow> q \<noteq> [] \<and> length q < length p \<and> take (length q) p = q"
proof (induction st arbitrary: p)
  case Nil
  then show ?case by simp
next
  case (Cons r st)
  from Cons.prems(1) have r: "r \<noteq> []" "length r < length p" "take (length r) p = r"
    and c: "chain (r # st)"
    by simp_all
  show ?case
  proof (cases "q = r")
    case True
    with r show ?thesis by simp
  next
    case False
    with Cons.prems(2) have "q \<in> set st" by simp
    from Cons.IH [OF c this] have q: "q \<noteq> []" "length q < length r" "take (length q) r = q"
      by simp_all
    have "take (length q) p = take (length q) (take (length r) p)"
      using q(2) by (simp add: min_def)
    with q r show ?thesis by simp
  qed
qed

lemma chain_top: "chain (p # st) \<Longrightarrow> p \<noteq> []"
  by (cases st) auto

lemma chain_tail: "chain (p # st) \<Longrightarrow> chain st"
  by (cases st) simp_all

lemma popStack_suffix: "\<exists>k. popStack its level st = drop k st"
proof (induction st)
  case Nil
  then show ?case by simp
next
  case (Cons p st)
  then obtain k where k: "popStack its level st = drop k st" by blast
  have "popStack its level (p # st) = drop 0 (p # st)
      \<or> popStack its level (p # st) = drop (Suc k) (p # st)"
    using k by (simp split: option.splits)
  then show ?case by blast
qed

lemma chain_drop: "chain st \<Longrightarrow> chain (drop k st)"
proof (induction k arbitrary: st)
  case 0
  then show ?case by simp
next
  case (Suc k)
  show ?case
  proof (cases st)
    case Nil
    then show ?thesis by simp
  next
    case (Cons p st')
    with Suc.prems have "chain st'" by (simp add: chain_tail)
    with Suc.IH Cons show ?thesis by simp
  qed
qed

lemma noteLines_butlast:
  "its \<noteq> [] \<Longrightarrow>
     concat (map noteLines its) = concat (map noteLines (butlast its)) @ noteLines (last its)"
  by (induction its rule: rev_induct) simp_all

lemma noteLines_modify:
  assumes "onSpine its p" and "deref its p = Some x" and "noteLines (g x) = noteLines x @ extra"
  shows "concat (map noteLines (modify its p g)) = concat (map noteLines its) @ extra"
  using assms
proof (induction its p rule: onSpine.induct)
  case (1 its)
  then show ?case by simp
next
  case (2 its i p)
  from "2.prems"(1) have ne: "its \<noteq> []" and i: "i = length its - 1" by simp_all
  then have il: "i < length its" by (cases its) simp_all
  have nth: "its ! i = last its" using ne i by (simp add: nth_last)
  show ?case
  proof (cases "p = []")
    case True
    with "2.prems"(2) il nth have x: "x = last its" by simp
    have "modify its (i # p) g = butlast its @ [g (last its)]"
      using True il nth i ne by (simp add: update_last)
    then show ?thesis
      using "2.prems"(3) x ne by (simp add: noteLines_butlast)
  next
    case False
    obtain d cs where l: "last its = Item d cs" by (cases "last its")
    from "2.prems"(1) False l have sp: "onSpine cs p" by simp
    from "2.prems"(2) False il nth l have dr: "deref cs p = Some x" by simp
    have ih: "concat (map noteLines (modify cs p g)) = concat (map noteLines cs) @ extra"
      using "2.IH" sp dr "2.prems"(3) l by simp
    have "modify its (i # p) g = butlast its @ [Item d (modify cs p g)]"
      using False il nth i ne l by (simp add: update_last)
    then show ?thesis
      using ih ne l by (simp add: noteLines_butlast)
  qed
qed

lemma deref_snoc:
  "p \<noteq> [] \<Longrightarrow>
     deref its (p @ [k])
       = (case deref its p of
            None \<Rightarrow> None
          | Some y \<Rightarrow> if k < length (Children y) then Some (Children y ! k) else None)"
proof (induction its p rule: deref.induct)
  case (1 its)
  then show ?case by simp
next
  case (2 its i p)
  then show ?case by (cases "p = []") auto
qed

lemma length_modify [simp]: "length (modify its p g) = length its"
  by (cases p) simp_all

lemma onSpine_modify: "onSpine its p \<Longrightarrow> onSpine (modify its p g) p"
proof (induction its p rule: onSpine.induct)
  case (1 its)
  then show ?case by simp
next
  case (2 its i p)
  from "2.prems" have ne: "its \<noteq> []" and i: "i = length its - Suc 0" by simp_all
  then have il: "i < length its" by (cases its) simp_all
  have nth: "its ! i = last its" using ne i by (simp add: nth_last)
  show ?case
  proof (cases "p = []")
    case True
    with ne i il show ?thesis by simp
  next
    case False
    with "2.prems" have sp: "onSpine (Children (last its)) p" by simp
    have m: "modify its (i # p) g
        = butlast its @ [Item (dat (last its)) (modify (Children (last its)) p g)]"
      using False il nth i ne by (simp add: update_last)
    from "2.IH" [OF sp] have "onSpine (modify (Children (last its)) p g) p" .
    then show ?thesis
      unfolding m using False i ne by simp
  qed
qed

lemma onSpine_snoc:
  "onSpine its p \<Longrightarrow> deref its p = Some y \<Longrightarrow> Children y \<noteq> [] \<Longrightarrow>
     onSpine its (p @ [length (Children y) - Suc 0])"
proof (induction its p rule: onSpine.induct)
  case (1 its)
  then show ?case by simp
next
  case (2 its i p)
  from "2.prems"(1) have ne: "its \<noteq> []" and i: "i = length its - Suc 0" by simp_all
  then have il: "i < length its" by (cases its) simp_all
  have nth: "its ! i = last its" using ne i by (simp add: nth_last)
  show ?case
  proof (cases "p = []")
    case True
    with "2.prems"(2) il nth have "y = last its" by simp
    with True ne i "2.prems"(3) show ?thesis by simp
  next
    case False
    with "2.prems"(1) have sp: "onSpine (Children (last its)) p" by simp
    from "2.prems"(2) False il nth have dr: "deref (Children (last its)) p = Some y" by simp
    from "2.IH" [OF sp dr "2.prems"(3)] ne i False show ?thesis by simp
  qed
qed

lemma lastNode_addChild:
  assumes "onSpine its p" and "deref its p = Some x" and "Children c = []"
  shows "lastNode (modify its p (addChild c)) (p @ [length (Children x)])"
proof -
  obtain d cs where x: "x = Item d cs" by (cases x)
  let ?its = "modify its p (addChild c)"
  have p: "p \<noteq> []" using assms(1) by (cases p) simp_all
  have sp: "onSpine ?its p" using assms(1) by (rule onSpine_modify)
  have dr: "deref ?its p = Some (Item d (cs @ [c]))"
    using assms(2) by (simp add: deref_modify x)
  from onSpine_snoc [OF sp dr] have "onSpine ?its (p @ [length cs])" by simp
  moreover have "deref ?its (p @ [length cs]) = Some c"
    using p dr by (simp add: deref_snoc)
  ultimately show ?thesis
    using assms(3) x by (simp add: lastNode_def)
qed

lemma lastNode_upd: "lastNode its p \<Longrightarrow> lastNode (modify its p (upd f)) p"
proof -
  assume a: "lastNode its p"
  then obtain x where x: "deref its p = Some x" "Children x = []" and sp: "onSpine its p"
    by (auto simp: lastNode_def)
  have "Children (upd f x) = []" using x(2) by (cases x) simp
  with x(1) onSpine_modify [OF sp] show ?thesis
    by (simp add: lastNode_def deref_modify)
qed

lemma lastNode_root: "Children c = [] \<Longrightarrow> lastNode (its @ [c]) [length its]"
  by (simp add: lastNode_def)

lemma parser_inv_initial: "parser_inv (initial path)"
  by (simp add: parser_inv_def initial_def)

lemma parser_inv_stack_onSpine:
  assumes "parser_inv s" and "q \<in> set (itemStack s)"
  shows "onSpine (Items (orgFile s)) q"
proof -
  from assms(2) obtain p st where st: "itemStack s = p # st" by (cases "itemStack s") auto
  with assms(1) have sp: "onSpine (Items (orgFile s)) p" and c: "chain (p # st)"
    by (simp_all add: parser_inv_def lastNode_def)
  show ?thesis
  proof (cases "q = p")
    case True
    with sp show ?thesis by simp
  next
    case False
    with assms(2) st have "q \<in> set st" by simp
    from chain_prefix_of_top [OF c this] have "q \<noteq> []" "take (length q) p = q" by simp_all
    with sp show ?thesis by (rule onSpine_prefix)
  qed
qed

lemma parser_inv_modify_upd:
  assumes "parser_inv s" and "currentItem s = Some p"
  shows "parser_inv (setItems (modify (Items (orgFile s)) p (upd f)) s)"
proof -
  from assms obtain st where st: "itemStack s = p # st"
    by (cases "itemStack s") (auto simp: parser_inv_def)
  with assms(1) have "lastNode (Items (orgFile s)) p" "chain (p # st)"
    by (simp_all add: parser_inv_def)
  with st assms(2) show ?thesis
    by (simp add: parser_inv_def lastNode_upd)
qed

lemma parser_inv_noteToCurrent: "parser_inv s \<Longrightarrow> parser_inv (noteToCurrent line s)"
  by (simp add: noteToCurrent_def parser_inv_modify_upd split: option.splits)

lemma parser_inv_flags:
  "parser_inv s \<Longrightarrow> parser_inv (s\<lparr>inLogbookDrawer := b\<rparr>)"
  "parser_inv s \<Longrightarrow> parser_inv (s\<lparr>inCodeBlock := b\<rparr>)"
  by (simp_all add: parser_inv_def split: list.splits)

lemma Children_newItem [simp]: "Children (newItem a m) = []"
  by (cases m) (simp add: newItem_def)

lemma parser_inv_heading:
  assumes "parser_inv s"
  shows "parser_inv (heading m s)"
proof -
  let ?item = "newItem (allocated s) m"
  let ?its = "Items (orgFile s)"
  let ?st = "popStack ?its (Level (dat ?item)) (itemStack s)"
  obtain k where k: "?st = drop k (itemStack s)"
    using popStack_suffix by blast
  show ?thesis
  proof (cases ?st)
    case Nil
    then show ?thesis
      by (simp add: heading_def Let_def parser_inv_def lastNode_root)
  next
    case (Cons parent rest)
    then have "parent \<in> set (drop k (itemStack s))" using k by simp
    then have mem: "parent \<in> set (itemStack s)" by (rule in_set_dropD)
    have sp: "onSpine ?its parent"
      using assms mem by (rule parser_inv_stack_onSpine)
    then obtain x where x: "deref ?its parent = Some x"
      using onSpine_deref by blast
    from mem obtain p st where st: "itemStack s = p # st" by (cases "itemStack s") auto
    with assms have "chain (itemStack s)" by (simp add: parser_inv_def)
    then have "chain (drop k (itemStack s))" by (rule chain_drop)
    with k Cons have c: "chain (parent # rest)" by simp
    then have pne: "parent \<noteq> []" by (rule chain_top)
    have ln: "lastNode (modify ?its parent (addChild ?item)) (parent @ [length (Children x)])"
      using sp x by (rule lastNode_addChild) simp
    have "chain ((parent @ [length (Children x)]) # parent # rest)"
      using c pne by simp
    with ln Cons x show ?thesis
      by (simp add: heading_def Let_def parser_inv_def)
  qed
qed

lemma parser_inv_step: "parser_inv s \<Longrightarrow> parser_inv (step s line)"
  by (simp add: step_def parser_inv_noteToCurrent parser_inv_flags parser_inv_heading
      parser_inv_modify_upd split: option.splits)

lemma parser_inv_steps: "parser_inv s \<Longrightarrow> parser_inv (foldl step s ls)"
  by (induction ls arbitrary: s) (simp_all add: parser_inv_step)

text \<open>
  So every pointer the parser holds is the position of an item: the branches of
  \<open>popStack\<close> and \<open>heading\<close> for a position without item are never taken.
\<close>

lemma parser_pointers_valid:
  assumes "s = foldl step (initial path) ls"
  shows "(\<forall>q \<in> set (itemStack s). \<exists>x. deref (Items (orgFile s)) q = Some x)
       \<and> (\<forall>p. currentItem s = Some p \<longrightarrow> (\<exists>x. deref (Items (orgFile s)) p = Some x))"
proof -
  have inv: "parser_inv s"
    unfolding assms using parser_inv_initial by (rule parser_inv_steps)
  have "\<exists>x. deref (Items (orgFile s)) q = Some x" if "q \<in> set (itemStack s)" for q
    using parser_inv_stack_onSpine [OF inv that] by (rule onSpine_deref)
  moreover have "p \<in> set (itemStack s)" if "currentItem s = Some p" for p
    using inv that by (cases "itemStack s") (auto simp: parser_inv_def)
  ultimately show ?thesis by blast
qed

section \<open>Parsing and writing back\<close>

lemma specHead_nothingToAdd: "nothingToAdd d \<Longrightarrow> specHead d = specHeading d # Notes d"
  by (auto simp: nothingToAdd_def specHead_def specScheduled_def specDeadline_def specDrawer_def
      split: option.splits)

lemma specLines_noteLines:
  "list_all (\<lambda>y. nothingToAdd (dat y)) (subitems x) \<Longrightarrow> specLines x = noteLines x"
proof (induction x)
  case (Item d cs)
  have eq: "map specLines cs = map noteLines cs"
  proof (rule map_cong [OF refl])
    fix c assume c: "c \<in> set cs"
    have "list_all (\<lambda>y. nothingToAdd (dat y)) (subitems c)"
      using Item.prems c by (auto simp: list_all_iff)
    with Item.IH c show "specLines c = noteLines c" by simp
  qed
  show ?case using Item.prems by (simp add: specHead_nothingToAdd eq)
qed

lemma Save_noteLines:
  assumes "list_all (\<lambda>y. nothingToAdd (dat y)) (allItems (Items orgf))"
  shows "Save orgf = unlines (concat (map noteLines (Items orgf)))"
proof -
  have eq: "map specLines (Items orgf) = map noteLines (Items orgf)"
  proof (rule map_cong [OF refl])
    fix x assume "x \<in> set (Items orgf)"
    with assms have "list_all (\<lambda>y. nothingToAdd (dat y)) (subitems x)"
      by (auto simp: allItems_def list_all_iff)
    then show "specLines x = noteLines x" by (rule specLines_noteLines)
  qed
  show ?thesis by (simp add: Save_lines eq)
qed

lemma scanLines_line:
  "CHR 0x0A \<notin> set l \<Longrightarrow> scanLines cur (l @ CHR 0x0A # rest) = (cur @ l) # scanLines [] rest"
  by (induction l arbitrary: cur) auto

lemma scanLines_unlines:
  "list_all (\<lambda>l. CHR 0x0A \<notin> set l) ls \<Longrightarrow> scanLines [] (unlines ls) = ls"
  by (induction ls) (simp_all add: scanLines_line)

lemma heading_starts_with_star:
  assumes "headingPattern l = Some m"
  shows "\<exists>r. l = CHR ''*'' # r"
proof -
  from assms have "headingGroups l \<noteq> None"
    by (auto simp: headingPattern_def split: option.splits)
  then have "takeWhile (\<lambda>c. c = CHR ''*'') l \<noteq> []"
    by (auto simp: headingGroups_def Let_def split: if_splits)
  then show ?thesis by (cases l) (auto split: if_splits)
qed

lemma heading_not_boundary:
  assumes "headingPattern l = Some m"
  shows "\<not> drawerStart l" "\<not> drawerEnd l" "\<not> codeBlockStart l" "\<not> codeBlockEnd l"
proof -
  from heading_starts_with_star [OF assms] obtain r where l: "l = CHR ''*'' # r" ..
  have d: "dropWhile reSpace l = l" by (simp add: l reSpace_def)
  show "\<not> drawerStart l" "\<not> drawerEnd l" "\<not> codeBlockStart l" "\<not> codeBlockEnd l"
    unfolding drawerStart_def drawerEnd_def codeBlockStart_def codeBlockEnd_def Let_def d
    by (simp_all add: l HasPrefix_def)
qed

lemma specHeading_cong:
  "Level d' = Level d \<Longrightarrow> State d' = State d \<Longrightarrow> Title d' = Title d \<Longrightarrow>
     specHeading d' = specHeading d"
  by (simp add: specHeading_def)

lemma noteLines_newItem: "noteLines (newItem a m) = [specHeading (dat (newItem 0 m))]"
  by (cases m) (simp add: newItem_def specHeading_def)

lemma noteLines_addChild: "noteLines (addChild c x) = noteLines x @ noteLines c"
  by (cases x) simp

lemma noteLines_appendNote:
  "Children x = [] \<Longrightarrow> noteLines (upd (appendNote l) x) = noteLines x @ [l]"
  by (cases x) (simp add: appendNote_def specHeading_def)

lemma noteLines_content:
  assumes "Children x = []" and "\<not> TrimSpace_empty l \<or> Notes (dat x) \<noteq> []"
  shows "noteLines (upd (content l) x) = noteLines x @ [l]"
proof -
  obtain d cs where x: "x = Item d cs" by (cases x)
  have "specHeading (content l d) = specHeading d"
    using keepsHead_content [of l] by (intro specHeading_cong) (simp_all add: keepsHead_def)
  with assms x show ?thesis by (auto simp: Notes_content)
qed

text \<open>
  The lines of a source block, of a drawer and of the notes go to the open item as they
  are; a heading line opens an item that writes back as the normal form of the line. So
  the heading lines and the notes of the tree that the parser builds are the lines
  \<open>kept\<close> of the lines read.
\<close>

lemma HasPrefix_Cons: "HasPrefix s (c # p) \<Longrightarrow> \<exists>r. s = c # r"
  by (cases s) (auto simp: HasPrefix_def)

lemma drawer_not_block:
  assumes "drawerStart l \<or> drawerEnd l"
  shows "\<not> codeBlockStart l" "\<not> codeBlockEnd l"
proof -
  from assms obtain r where "dropWhile reSpace l = CHR '':'' # r"
    by (auto simp: drawerStart_def drawerEnd_def Let_def dest: HasPrefix_Cons)
  then show "\<not> codeBlockStart l" "\<not> codeBlockEnd l"
    by (simp_all add: codeBlockStart_def codeBlockEnd_def HasPrefix_def)
qed

lemma inCodeBlock_noteToCurrent: "inCodeBlock (noteToCurrent l s) = inCodeBlock s"
  by (simp add: noteToCurrent_def setItems_def split: option.splits)

lemma inCodeBlock_heading: "inCodeBlock (heading m s) = inCodeBlock s"
  by (simp add: heading_def Let_def setItems_def split: list.splits option.splits)

lemma inCodeBlock_step:
  "inCodeBlock (step s l)
   = (if codeBlockStart l then True else if codeBlockEnd l then False else inCodeBlock s)"
proof (cases "drawerStart l \<or> drawerEnd l")
  case True
  from drawer_not_block [OF this] show ?thesis
    by (simp add: step_def inCodeBlock_noteToCurrent inCodeBlock_heading setItems_def
        split: option.splits)
next
  case False
  then show ?thesis
    by (simp add: step_def inCodeBlock_noteToCurrent inCodeBlock_heading setItems_def
        split: option.splits)
qed

lemma step_verbatim:
  assumes "drawerStart l \<or> (drawerEnd l \<and> inLogbookDrawer s) \<or> codeBlockStart l
      \<or> codeBlockEnd l \<or> inCodeBlock s"
  shows "\<exists>s'. step s l = noteToCurrent l s' \<and> currentItem s' = currentItem s
        \<and> itemStack s' = itemStack s \<and> Items (orgFile s') = Items (orgFile s)"
  using assms by (auto simp: step_def)

lemma step_verbatim_closed:
  assumes "drawerStart l \<or> (drawerEnd l \<and> inLogbookDrawer s) \<or> codeBlockStart l
      \<or> codeBlockEnd l \<or> inCodeBlock s"
    and "currentItem s = None"
  shows "Items (orgFile (step s l)) = Items (orgFile s)" "itemStack (step s l) = itemStack s"
    "currentItem (step s l) = None"
proof -
  from step_verbatim [OF assms(1)] obtain s' where s': "step s l = noteToCurrent l s'"
    "currentItem s' = currentItem s" "itemStack s' = itemStack s"
    "Items (orgFile s') = Items (orgFile s)"
    by blast
  with assms(2) have "step s l = s'" by (simp add: noteToCurrent_def)
  with s' assms(2) show "Items (orgFile (step s l)) = Items (orgFile s)"
    "itemStack (step s l) = itemStack s" "currentItem (step s l) = None"
    by simp_all
qed

lemma step_verbatim_open:
  assumes "drawerStart l \<or> (drawerEnd l \<and> inLogbookDrawer s) \<or> codeBlockStart l
      \<or> codeBlockEnd l \<or> inCodeBlock s"
    and "currentItem s = Some p"
  shows "Items (orgFile (step s l)) = modify (Items (orgFile s)) p (upd (appendNote l))"
    "itemStack (step s l) = itemStack s" "currentItem (step s l) = Some p"
proof -
  from step_verbatim [OF assms(1)] obtain s' where s': "step s l = noteToCurrent l s'"
    "currentItem s' = currentItem s" "itemStack s' = itemStack s"
    "Items (orgFile s') = Items (orgFile s)"
    by blast
  with assms(2)
  have eq: "step s l = setItems (modify (Items (orgFile s)) p (upd (appendNote l))) s'"
    by (simp add: noteToCurrent_def)
  show "Items (orgFile (step s l)) = modify (Items (orgFile s)) p (upd (appendNote l))"
    "itemStack (step s l) = itemStack s" "currentItem (step s l) = Some p"
    unfolding eq using s'(2,3) assms(2) by (simp_all add: setItems_def)
qed

lemma step_content:
  assumes "\<not> (drawerStart l \<or> (drawerEnd l \<and> inLogbookDrawer s) \<or> codeBlockStart l
      \<or> codeBlockEnd l \<or> inCodeBlock s)"
    and "headingPattern l = None"
  shows "step s l
     = (case currentItem s of
          None \<Rightarrow> s
        | Some p \<Rightarrow> setItems (modify (Items (orgFile s)) p (upd (content l))) s)"
  using assms by (auto simp: step_def)

lemma step_heading:
  assumes "\<not> (drawerStart l \<or> (drawerEnd l \<and> inLogbookDrawer s) \<or> codeBlockStart l
      \<or> codeBlockEnd l \<or> inCodeBlock s)"
    and "headingPattern l = Some m"
  shows "step s l = heading m s"
  using assms by (auto simp: step_def)

lemma parser_inv_closed:
  assumes "parser_inv s" and "itemStack s = []"
  shows "currentItem s = None" "Items (orgFile s) = []"
  using assms by (simp_all add: parser_inv_def)

lemma parser_inv_open:
  assumes "parser_inv s" and "itemStack s \<noteq> []"
  obtains p x where "currentItem s = Some p" "onSpine (Items (orgFile s)) p"
    "deref (Items (orgFile s)) p = Some x" "Children x = []"
proof -
  from assms(2) obtain p st where st: "itemStack s = p # st"
    by (cases "itemStack s") auto
  with assms(1) have c: "currentItem s = Some p" and l: "lastNode (Items (orgFile s)) p"
    by (simp_all add: parser_inv_def)
  from l obtain x where "deref (Items (orgFile s)) p = Some x" "Children x = []"
    "onSpine (Items (orgFile s)) p"
    by (auto simp: lastNode_def)
  with c that show ?thesis by blast
qed

lemma fresh_closed: "currentItem s = None \<Longrightarrow> fresh s = False"
  by (simp add: fresh_def)

lemma fresh_open:
  "currentItem s = Some p \<Longrightarrow> deref (Items (orgFile s)) p = Some x \<Longrightarrow>
     fresh s = (Notes (dat x) = [])"
  by (simp add: fresh_def)

lemma heading_text:
  assumes "parser_inv s"
  shows "concat (map noteLines (Items (orgFile (heading m s))))
           = concat (map noteLines (Items (orgFile s))) @ [specHeading (dat (newItem 0 m))]"
    and "itemStack (heading m s) \<noteq> []"
    and "fresh (heading m s)"
proof -
  let ?item = "newItem (allocated s) m"
  let ?its = "Items (orgFile s)"
  let ?st = "popStack ?its (Level (dat ?item)) (itemStack s)"
  have l: "noteLines ?item = [specHeading (dat (newItem 0 m))]"
    by (rule noteLines_newItem)
  have n: "Notes (dat ?item) = []"
    by (cases m) (simp add: newItem_def)
  have "concat (map noteLines (Items (orgFile (heading m s))))
           = concat (map noteLines (Items (orgFile s))) @ [specHeading (dat (newItem 0 m))]
      \<and> itemStack (heading m s) \<noteq> [] \<and> fresh (heading m s)"
  proof (cases ?st)
    case Nil
    have "deref (?its @ [?item]) [length ?its] = Some ?item" by simp
    with Nil show ?thesis
      using l n by (simp add: heading_def Let_def setItems_def fresh_def)
  next
    case (Cons parent rest)
    obtain k where k: "?st = drop k (itemStack s)"
      using popStack_suffix by blast
    with Cons have "parent \<in> set (drop k (itemStack s))" by simp
    then have "parent \<in> set (itemStack s)" by (rule in_set_dropD)
    with assms have sp: "onSpine ?its parent" by (rule parser_inv_stack_onSpine)
    then obtain x where x: "deref ?its parent = Some x"
      using onSpine_deref by blast
    from sp have pne: "parent \<noteq> []" by (cases parent) auto
    have "noteLines (addChild ?item x) = noteLines x @ [specHeading (dat (newItem 0 m))]"
      by (simp add: noteLines_addChild l)
    from noteLines_modify [of ?its parent x "addChild ?item" "[specHeading (dat (newItem 0 m))]",
        OF sp x this]
    have t: "concat (map noteLines (modify ?its parent (addChild ?item)))
        = concat (map noteLines ?its) @ [specHeading (dat (newItem 0 m))]" .
    have "deref (modify ?its parent (addChild ?item)) (parent @ [length (Children x)])
        = Some ?item"
      using x by (cases x) (simp add: deref_snoc [OF pne] deref_modify)
    with Cons x t n show ?thesis
      by (simp add: heading_def Let_def setItems_def fresh_def)
  qed
  then show "concat (map noteLines (Items (orgFile (heading m s))))
           = concat (map noteLines (Items (orgFile s))) @ [specHeading (dat (newItem 0 m))]"
    and "itemStack (heading m s) \<noteq> []"
    and "fresh (heading m s)"
    by simp_all
qed

lemma noteLines_content_dropped:
  assumes "TrimSpace_empty l" and "Notes (dat x) = []"
  shows "noteLines (upd (content l) x) = noteLines x @ []"
proof -
  obtain d cs where x: "x = Item d cs" by (cases x)
  have "specHeading (content l d) = specHeading d"
    using keepsHead_content [of l] by (intro specHeading_cong) (simp_all add: keepsHead_def)
  with assms x show ?thesis by (auto simp: Notes_content)
qed

lemma kept_step:
  assumes "parser_inv s"
  shows "concat (map noteLines (Items (orgFile (step s l))))
           @ kept (itemStack (step s l) \<noteq> []) (inCodeBlock (step s l)) (fresh (step s l)) ls
         = concat (map noteLines (Items (orgFile s)))
           @ kept (itemStack s \<noteq> []) (inCodeBlock s) (fresh s) (l # ls)"
proof (cases "drawerStart l \<or> (drawerEnd l \<and> inLogbookDrawer s) \<or> codeBlockStart l
      \<or> codeBlockEnd l \<or> inCodeBlock s")
  case True
  have h: "headingPattern l = None"
    if "\<not> codeBlockStart l" "\<not> codeBlockEnd l" "\<not> inCodeBlock s"
  proof (cases "headingPattern l")
    case (Some m)
    from heading_not_boundary [OF this] True that show ?thesis by blast
  qed simp
  have nb: "\<not> TrimSpace_empty l \<or> inCodeBlock s"
    using True blank_no_boundary [of l] by blast
  show ?thesis
  proof (cases "itemStack s = []")
    case e: True
    from parser_inv_closed [OF assms e] have c: "currentItem s = None" by simp
    note v = step_verbatim_closed [OF True c]
    have f: "fresh (step s l) = False" "fresh s = False"
      using v(3) c by (simp_all add: fresh_closed)
    show ?thesis
      using e h by (simp add: v f inCodeBlock_step)
  next
    case ne: False
    from parser_inv_open [OF assms ne] obtain p x where
      px: "currentItem s = Some p" "onSpine (Items (orgFile s)) p"
        "deref (Items (orgFile s)) p = Some x" "Children x = []"
      by blast
    note v = step_verbatim_open [OF True px(1)]
    have t: "concat (map noteLines (Items (orgFile (step s l))))
        = concat (map noteLines (Items (orgFile s))) @ [l]"
      unfolding v(1)
      using noteLines_modify [of "Items (orgFile s)" p x "upd (appendNote l)" "[l]",
          OF px(2) px(3) noteLines_appendNote [OF px(4)]] .
    have d: "deref (Items (orgFile (step s l))) p = Some (upd (appendNote l) x)"
      unfolding v(1) by (simp add: deref_modify px(3))
    have f: "fresh (step s l) = False"
      using fresh_open [OF v(3) d] by (cases x) (simp add: appendNote_def)
    show ?thesis
      using ne h nb by (simp add: t v(2) f inCodeBlock_step)
  qed
next
  case False
  then have b: "\<not> codeBlockStart l" "\<not> codeBlockEnd l" "\<not> inCodeBlock s" by simp_all
  show ?thesis
  proof (cases "headingPattern l")
    case (Some m)
    have st: "step s l = heading m s" using False Some by (rule step_heading)
    show ?thesis
      using heading_text [OF assms, of m] b Some by (simp add: st inCodeBlock_heading)
  next
    case None
    note st = step_content [OF False None]
    show ?thesis
    proof (cases "itemStack s = []")
      case e: True
      from parser_inv_closed [OF assms e] have c: "currentItem s = None" by simp
      have "step s l = s" using st c by simp
      then show ?thesis using e b None by simp
    next
      case ne: False
      from parser_inv_open [OF assms ne] obtain p x where
        px: "currentItem s = Some p" "onSpine (Items (orgFile s)) p"
          "deref (Items (orgFile s)) p = Some x" "Children x = []"
        by blast
      have eq: "step s l = setItems (modify (Items (orgFile s)) p (upd (content l))) s"
        using st px(1) by simp
      have i: "Items (orgFile (step s l)) = modify (Items (orgFile s)) p (upd (content l))"
        and k: "itemStack (step s l) = itemStack s" and c: "currentItem (step s l) = Some p"
        unfolding eq using px(1) by (simp_all add: setItems_def)
      have d: "deref (Items (orgFile (step s l))) p = Some (upd (content l) x)"
        unfolding i by (simp add: deref_modify px(3))
      have f0: "fresh s = (Notes (dat x) = [])"
        using px(1,3) by (rule fresh_open)
      have f1: "fresh (step s l) = (TrimSpace_empty l \<and> Notes (dat x) = [])"
        using fresh_open [OF c d] by (cases x) (simp add: Notes_content)
      show ?thesis
      proof (cases "TrimSpace_empty l \<and> Notes (dat x) = []")
        case True
        then have "noteLines (upd (content l) x) = noteLines x @ []"
          by (simp add: noteLines_content_dropped)
        from noteLines_modify [of "Items (orgFile s)" p x "upd (content l)" "[]",
            OF px(2) px(3) this]
        have t: "concat (map noteLines (Items (orgFile (step s l))))
            = concat (map noteLines (Items (orgFile s)))"
          unfolding i by simp
        show ?thesis
          using ne b None True by (simp add: t k f0 f1 inCodeBlock_step)
      next
        case False
        then have keep: "\<not> TrimSpace_empty l \<or> Notes (dat x) \<noteq> []" by simp
        from noteLines_modify [of "Items (orgFile s)" p x "upd (content l)" "[l]",
            OF px(2) px(3) noteLines_content [OF px(4) keep]]
        have t: "concat (map noteLines (Items (orgFile (step s l))))
            = concat (map noteLines (Items (orgFile s))) @ [l]"
          unfolding i .
        show ?thesis
          using ne b None False by (auto simp: t k f0 f1 inCodeBlock_step)
      qed
    qed
  qed
qed

lemma kept_steps:
  "parser_inv s \<Longrightarrow>
     concat (map noteLines (Items (orgFile (foldl step s ls))))
       = concat (map noteLines (Items (orgFile s)))
         @ kept (itemStack s \<noteq> []) (inCodeBlock s) (fresh s) ls"
proof (induction ls arbitrary: s)
  case Nil
  show ?case by simp
next
  case (Cons l ls)
  have "concat (map noteLines (Items (orgFile (foldl step (step s l) ls))))
       = concat (map noteLines (Items (orgFile (step s l))))
         @ kept (itemStack (step s l) \<noteq> []) (inCodeBlock (step s l)) (fresh (step s l)) ls"
    using Cons.prems by (intro Cons.IH parser_inv_step)
  also have "\<dots> = concat (map noteLines (Items (orgFile s)))
         @ kept (itemStack s \<noteq> []) (inCodeBlock s) (fresh s) (l # ls)"
    using Cons.prems by (rule kept_step)
  finally show ?case by simp
qed

lemma parse_kept:
  "concat (map noteLines (Items (orgFile (foldl step (initial path) ls))))
     = kept False False False ls"
proof -
  have "itemStack (initial path) = []" "inCodeBlock (initial path) = False"
    "fresh (initial path) = False" "Items (orgFile (initial path)) = []"
    by (simp_all add: initial_def fresh_def)
  with kept_steps [OF parser_inv_initial, of path ls] show ?thesis by simp
qed

lemma canonicalFrom_kept: "canonicalFrom b h ls \<Longrightarrow> kept True b h ls = ls"
proof (induction ls arbitrary: b h)
  case Nil
  show ?case by simp
next
  case (Cons l ls)
  show ?case
  proof (cases "codeBlockStart l \<or> codeBlockEnd l \<or> b")
    case True
    with Cons.prems Cons.IH show ?thesis by (auto split: if_splits)
  next
    case False
    show ?thesis
    proof (cases "headingPattern l")
      case None
      with False Cons.prems have "\<not> (h \<and> TrimSpace_empty l)" "canonicalFrom False False ls"
        by simp_all
      with Cons.IH [of False False] False None show ?thesis by simp
    next
      case (Some m)
      with False Cons.prems have "normalHeading l" "canonicalFrom False True ls"
        by simp_all
      with Cons.IH [of False True] False Some show ?thesis
        by (simp add: normalHeading_def)
    qed
  qed
qed

lemma canonical_kept:
  assumes "canonical ls"
  shows "kept False False False ls = ls"
proof (cases ls)
  case Nil
  then show ?thesis by simp
next
  case (Cons l ls')
  with assms obtain m where m: "headingPattern l = Some m"
    by (auto simp: canonical_def)
  from heading_not_boundary [OF m] have nb: "\<not> codeBlockStart l" "\<not> codeBlockEnd l"
    by simp_all
  from assms Cons have "canonicalFrom False False (l # ls')"
    by (simp add: canonical_def)
  with m nb have n: "normalHeading l" and "canonicalFrom False True ls'"
    by simp_all
  from canonicalFrom_kept [OF this(2)] n show ?thesis
    using Cons m nb by (simp add: normalHeading_def)
qed

text \<open>
  C1, as amended. For a text of canonical lines, each ended by a newline, the parser
  returns a document, and when the notes of every item of that document hold the lines
  that its fields would make the serializer add, writing the document gives the text
  back.
\<close>

theorem round_trip:
  assumes "canonical ls"
  shows "\<exists>orgf. ParseOrgFile path (Contents (unlines ls)) = Inr orgf
           \<and> (list_all (\<lambda>item. nothingToAdd (dat item)) (allItems (Items orgf))
                \<longrightarrow> Save orgf = unlines ls)"
proof -
  let ?orgf = "orgFile (foldl step (initial path) ls)"
  have nl: "list_all (\<lambda>l. CHR 0x0A \<notin> set l) ls"
    and cr: "map dropCR ls = ls"
    and short: "\<not> list_ex (\<lambda>l. MaxScanTokenSize \<le> length l) ls"
    using assms by (auto simp: canonical_def list_all_iff list_ex_iff map_idI)
  have scan: "scanLines [] (unlines ls) = ls"
    using nl by (rule scanLines_unlines)
  have parse: "ParseOrgFile path (Contents (unlines ls)) = Inr ?orgf"
    using short by (simp add: ParseOrgFile_def scan cr)
  have "concat (map noteLines (Items ?orgf)) = ls"
    using canonical_kept [OF assms] by (simp add: parse_kept)
  then have "Save ?orgf = unlines ls"
    if "list_all (\<lambda>item. nothingToAdd (dat item)) (allItems (Items ?orgf))"
    using Save_noteLines [OF that] by simp
  with parse show ?thesis by blast
qed

text \<open>
  A text with a scheduled line, a drawer and a source block that holds a line of stars
  and an empty line, and the document it parses to.
\<close>

lemma canonical_example:
  "canonical
     [''* TODO T'', ''SCHEDULED: <2024-01-15 Mon>'', ''** Sub'', '':LOGBOOK:'',
      ''CLOCK: [2024-01-15 Mon 10:00]--[2024-01-15 Mon 11:00]'', '':END:'',
      ''#+BEGIN_SRC org'', ''*  x'', [], ''#+END_SRC'', ''note'']"
proof -
  have 1: "list_all (\<lambda>l. CHR 0x0A \<notin> set l \<and> dropCR l = l)
     [''* TODO T'', ''SCHEDULED: <2024-01-15 Mon>'', ''** Sub'', '':LOGBOOK:'',
      ''CLOCK: [2024-01-15 Mon 10:00]--[2024-01-15 Mon 11:00]'', '':END:'',
      ''#+BEGIN_SRC org'', ''*  x'', [], ''#+END_SRC'', ''note'']"
    by code_simp
  have 2: "list_all (\<lambda>l. length l < MaxScanTokenSize)
     [''* TODO T'', ''SCHEDULED: <2024-01-15 Mon>'', ''** Sub'', '':LOGBOOK:'',
      ''CLOCK: [2024-01-15 Mon 10:00]--[2024-01-15 Mon 11:00]'', '':END:'',
      ''#+BEGIN_SRC org'', ''*  x'', [], ''#+END_SRC'', ''note'']"
    by (simp add: MaxScanTokenSize_def)
  have 3: "canonicalFrom False False
     [''* TODO T'', ''SCHEDULED: <2024-01-15 Mon>'', ''** Sub'', '':LOGBOOK:'',
      ''CLOCK: [2024-01-15 Mon 10:00]--[2024-01-15 Mon 11:00]'', '':END:'',
      ''#+BEGIN_SRC org'', ''*  x'', [], ''#+END_SRC'', ''note'']"
    by code_simp
  have 4: "headingPattern ''* TODO T'' \<noteq> None"
    by code_simp
  from 1 2 have "list_all (\<lambda>l. CHR 0x0A \<notin> set l \<and> dropCR l = l \<and> length l < MaxScanTokenSize)
     [''* TODO T'', ''SCHEDULED: <2024-01-15 Mon>'', ''** Sub'', '':LOGBOOK:'',
      ''CLOCK: [2024-01-15 Mon 10:00]--[2024-01-15 Mon 11:00]'', '':END:'',
      ''#+BEGIN_SRC org'', ''*  x'', [], ''#+END_SRC'', ''note'']"
    unfolding list_all_iff by blast
  with 3 4 show ?thesis
    unfolding canonical_def by simp
qed

lemma unlines_example:
  "unlines
     [''* TODO T'', ''SCHEDULED: <2024-01-15 Mon>'', ''** Sub'', '':LOGBOOK:'',
      ''CLOCK: [2024-01-15 Mon 10:00]--[2024-01-15 Mon 11:00]'', '':END:'',
      ''#+BEGIN_SRC org'', ''*  x'', [], ''#+END_SRC'', ''note'']
   = ''* TODO T\<newline>SCHEDULED: <2024-01-15 Mon>\<newline>** Sub\<newline>:LOGBOOK:\<newline>CLOCK: [2024-01-15 Mon 10:00]--[2024-01-15 Mon 11:00]\<newline>:END:\<newline>#+BEGIN_SRC org\<newline>*  x\<newline>\<newline>#+END_SRC\<newline>note\<newline>''"
  by (simp add: unlines_def)

lemma steps_example:
  "orgFile (foldl step (initial ''todo.org'')
     [''* TODO T'', ''SCHEDULED: <2024-01-15 Mon>'', ''** Sub'', '':LOGBOOK:'',
      ''CLOCK: [2024-01-15 Mon 10:00]--[2024-01-15 Mon 11:00]'', '':END:'',
      ''#+BEGIN_SRC org'', ''*  x'', [], ''#+END_SRC'', ''note''])
   = \<lparr>Path = ''todo.org'',
      Items = [Item \<lparr>ref = 0, Level = 1, State = ''TODO'', Title = ''T'',
        Scheduled = Some \<lparr>tYear = 2024, tMonth = 1, tDay = 15, tHour = 0, tMinute = 0, tSecond = 0, tNano = 0\<rparr>,
        Deadline = None, Notes = [''SCHEDULED: <2024-01-15 Mon>''], Folded = False,
        ClockEntries = []\<rparr>
       [Item \<lparr>ref = 1, Level = 2, State = [], Title = ''Sub'', Scheduled = None, Deadline = None,
          Notes = ['':LOGBOOK:'', ''CLOCK: [2024-01-15 Mon 10:00]--[2024-01-15 Mon 11:00]'',
                   '':END:'', ''#+BEGIN_SRC org'', ''*  x'', [], ''#+END_SRC'', ''note''],
          Folded = False,
          ClockEntries = [\<lparr>Start = \<lparr>tYear = 2024, tMonth = 1, tDay = 15, tHour = 10, tMinute = 0, tSecond = 0, tNano = 0\<rparr>,
            End = Some \<lparr>tYear = 2024, tMonth = 1, tDay = 15, tHour = 11, tMinute = 0, tSecond = 0, tNano = 0\<rparr>\<rparr>]\<rparr> []]]\<rparr>"
  by code_simp

lemma parse_example:
  "ParseOrgFile ''todo.org''
     (Contents ''* TODO T\<newline>SCHEDULED: <2024-01-15 Mon>\<newline>** Sub\<newline>:LOGBOOK:\<newline>CLOCK: [2024-01-15 Mon 10:00]--[2024-01-15 Mon 11:00]\<newline>:END:\<newline>#+BEGIN_SRC org\<newline>*  x\<newline>\<newline>#+END_SRC\<newline>note\<newline>'')
   = Inr \<lparr>Path = ''todo.org'',
      Items = [Item \<lparr>ref = 0, Level = 1, State = ''TODO'', Title = ''T'',
        Scheduled = Some \<lparr>tYear = 2024, tMonth = 1, tDay = 15, tHour = 0, tMinute = 0, tSecond = 0, tNano = 0\<rparr>,
        Deadline = None, Notes = [''SCHEDULED: <2024-01-15 Mon>''], Folded = False,
        ClockEntries = []\<rparr>
       [Item \<lparr>ref = 1, Level = 2, State = [], Title = ''Sub'', Scheduled = None, Deadline = None,
          Notes = ['':LOGBOOK:'', ''CLOCK: [2024-01-15 Mon 10:00]--[2024-01-15 Mon 11:00]'',
                   '':END:'', ''#+BEGIN_SRC org'', ''*  x'', [], ''#+END_SRC'', ''note''],
          Folded = False,
          ClockEntries = [\<lparr>Start = \<lparr>tYear = 2024, tMonth = 1, tDay = 15, tHour = 10, tMinute = 0, tSecond = 0, tNano = 0\<rparr>,
            End = Some \<lparr>tYear = 2024, tMonth = 1, tDay = 15, tHour = 11, tMinute = 0, tSecond = 0, tNano = 0\<rparr>\<rparr>]\<rparr> []]]\<rparr>"
proof -
  have 1: "scanLines [] ''* TODO T\<newline>SCHEDULED: <2024-01-15 Mon>\<newline>** Sub\<newline>:LOGBOOK:\<newline>CLOCK: [2024-01-15 Mon 10:00]--[2024-01-15 Mon 11:00]\<newline>:END:\<newline>#+BEGIN_SRC org\<newline>*  x\<newline>\<newline>#+END_SRC\<newline>note\<newline>''
   = [''* TODO T'', ''SCHEDULED: <2024-01-15 Mon>'', ''** Sub'', '':LOGBOOK:'',
      ''CLOCK: [2024-01-15 Mon 10:00]--[2024-01-15 Mon 11:00]'', '':END:'',
      ''#+BEGIN_SRC org'', ''*  x'', [], ''#+END_SRC'', ''note'']"
    by code_simp
  have 2: "map dropCR
     [''* TODO T'', ''SCHEDULED: <2024-01-15 Mon>'', ''** Sub'', '':LOGBOOK:'',
      ''CLOCK: [2024-01-15 Mon 10:00]--[2024-01-15 Mon 11:00]'', '':END:'',
      ''#+BEGIN_SRC org'', ''*  x'', [], ''#+END_SRC'', ''note'']
   = [''* TODO T'', ''SCHEDULED: <2024-01-15 Mon>'', ''** Sub'', '':LOGBOOK:'',
      ''CLOCK: [2024-01-15 Mon 10:00]--[2024-01-15 Mon 11:00]'', '':END:'',
      ''#+BEGIN_SRC org'', ''*  x'', [], ''#+END_SRC'', ''note'']"
    by code_simp
  have 3: "list_ex (\<lambda>l. MaxScanTokenSize \<le> length l)
     [''* TODO T'', ''SCHEDULED: <2024-01-15 Mon>'', ''** Sub'', '':LOGBOOK:'',
      ''CLOCK: [2024-01-15 Mon 10:00]--[2024-01-15 Mon 11:00]'', '':END:'',
      ''#+BEGIN_SRC org'', ''*  x'', [], ''#+END_SRC'', ''note''] = False"
    by (simp add: MaxScanTokenSize_def)
  show ?thesis
    unfolding ParseOrgFile_def os_file.case Let_def 1 2 3 steps_example
    by simp
qed

theorem round_trip_witness:
  "canonical
     [''* TODO T'', ''SCHEDULED: <2024-01-15 Mon>'', ''** Sub'', '':LOGBOOK:'',
      ''CLOCK: [2024-01-15 Mon 10:00]--[2024-01-15 Mon 11:00]'', '':END:'',
      ''#+BEGIN_SRC org'', ''*  x'', [], ''#+END_SRC'', ''note'']
   \<and> ParseOrgFile ''todo.org''
     (Contents ''* TODO T\<newline>SCHEDULED: <2024-01-15 Mon>\<newline>** Sub\<newline>:LOGBOOK:\<newline>CLOCK: [2024-01-15 Mon 10:00]--[2024-01-15 Mon 11:00]\<newline>:END:\<newline>#+BEGIN_SRC org\<newline>*  x\<newline>\<newline>#+END_SRC\<newline>note\<newline>'')
     = Inr \<lparr>Path = ''todo.org'',
      Items = [Item \<lparr>ref = 0, Level = 1, State = ''TODO'', Title = ''T'',
        Scheduled = Some \<lparr>tYear = 2024, tMonth = 1, tDay = 15, tHour = 0, tMinute = 0, tSecond = 0, tNano = 0\<rparr>,
        Deadline = None, Notes = [''SCHEDULED: <2024-01-15 Mon>''], Folded = False,
        ClockEntries = []\<rparr>
       [Item \<lparr>ref = 1, Level = 2, State = [], Title = ''Sub'', Scheduled = None, Deadline = None,
          Notes = ['':LOGBOOK:'', ''CLOCK: [2024-01-15 Mon 10:00]--[2024-01-15 Mon 11:00]'',
                   '':END:'', ''#+BEGIN_SRC org'', ''*  x'', [], ''#+END_SRC'', ''note''],
          Folded = False,
          ClockEntries = [\<lparr>Start = \<lparr>tYear = 2024, tMonth = 1, tDay = 15, tHour = 10, tMinute = 0, tSecond = 0, tNano = 0\<rparr>,
            End = Some \<lparr>tYear = 2024, tMonth = 1, tDay = 15, tHour = 11, tMinute = 0, tSecond = 0, tNano = 0\<rparr>\<rparr>]\<rparr> []]]\<rparr>
   \<and> list_all (\<lambda>item. nothingToAdd (dat item)) (allItems (Items
       \<lparr>Path = ''todo.org'',
      Items = [Item \<lparr>ref = 0, Level = 1, State = ''TODO'', Title = ''T'',
        Scheduled = Some \<lparr>tYear = 2024, tMonth = 1, tDay = 15, tHour = 0, tMinute = 0, tSecond = 0, tNano = 0\<rparr>,
        Deadline = None, Notes = [''SCHEDULED: <2024-01-15 Mon>''], Folded = False,
        ClockEntries = []\<rparr>
       [Item \<lparr>ref = 1, Level = 2, State = [], Title = ''Sub'', Scheduled = None, Deadline = None,
          Notes = ['':LOGBOOK:'', ''CLOCK: [2024-01-15 Mon 10:00]--[2024-01-15 Mon 11:00]'',
                   '':END:'', ''#+BEGIN_SRC org'', ''*  x'', [], ''#+END_SRC'', ''note''],
          Folded = False,
          ClockEntries = [\<lparr>Start = \<lparr>tYear = 2024, tMonth = 1, tDay = 15, tHour = 10, tMinute = 0, tSecond = 0, tNano = 0\<rparr>,
            End = Some \<lparr>tYear = 2024, tMonth = 1, tDay = 15, tHour = 11, tMinute = 0, tSecond = 0, tNano = 0\<rparr>\<rparr>]\<rparr> []]]\<rparr>))
   \<and> Save
       \<lparr>Path = ''todo.org'',
      Items = [Item \<lparr>ref = 0, Level = 1, State = ''TODO'', Title = ''T'',
        Scheduled = Some \<lparr>tYear = 2024, tMonth = 1, tDay = 15, tHour = 0, tMinute = 0, tSecond = 0, tNano = 0\<rparr>,
        Deadline = None, Notes = [''SCHEDULED: <2024-01-15 Mon>''], Folded = False,
        ClockEntries = []\<rparr>
       [Item \<lparr>ref = 1, Level = 2, State = [], Title = ''Sub'', Scheduled = None, Deadline = None,
          Notes = ['':LOGBOOK:'', ''CLOCK: [2024-01-15 Mon 10:00]--[2024-01-15 Mon 11:00]'',
                   '':END:'', ''#+BEGIN_SRC org'', ''*  x'', [], ''#+END_SRC'', ''note''],
          Folded = False,
          ClockEntries = [\<lparr>Start = \<lparr>tYear = 2024, tMonth = 1, tDay = 15, tHour = 10, tMinute = 0, tSecond = 0, tNano = 0\<rparr>,
            End = Some \<lparr>tYear = 2024, tMonth = 1, tDay = 15, tHour = 11, tMinute = 0, tSecond = 0, tNano = 0\<rparr>\<rparr>]\<rparr> []]]\<rparr>
     = ''* TODO T\<newline>SCHEDULED: <2024-01-15 Mon>\<newline>** Sub\<newline>:LOGBOOK:\<newline>CLOCK: [2024-01-15 Mon 10:00]--[2024-01-15 Mon 11:00]\<newline>:END:\<newline>#+BEGIN_SRC org\<newline>*  x\<newline>\<newline>#+END_SRC\<newline>note\<newline>''"
proof -
  have n: "list_all (\<lambda>item. nothingToAdd (dat item)) (allItems (Items
       \<lparr>Path = ''todo.org'',
      Items = [Item \<lparr>ref = 0, Level = 1, State = ''TODO'', Title = ''T'',
        Scheduled = Some \<lparr>tYear = 2024, tMonth = 1, tDay = 15, tHour = 0, tMinute = 0, tSecond = 0, tNano = 0\<rparr>,
        Deadline = None, Notes = [''SCHEDULED: <2024-01-15 Mon>''], Folded = False,
        ClockEntries = []\<rparr>
       [Item \<lparr>ref = 1, Level = 2, State = [], Title = ''Sub'', Scheduled = None, Deadline = None,
          Notes = ['':LOGBOOK:'', ''CLOCK: [2024-01-15 Mon 10:00]--[2024-01-15 Mon 11:00]'',
                   '':END:'', ''#+BEGIN_SRC org'', ''*  x'', [], ''#+END_SRC'', ''note''],
          Folded = False,
          ClockEntries = [\<lparr>Start = \<lparr>tYear = 2024, tMonth = 1, tDay = 15, tHour = 10, tMinute = 0, tSecond = 0, tNano = 0\<rparr>,
            End = Some \<lparr>tYear = 2024, tMonth = 1, tDay = 15, tHour = 11, tMinute = 0, tSecond = 0, tNano = 0\<rparr>\<rparr>]\<rparr> []]]\<rparr>))"
    by code_simp
  from round_trip [OF canonical_example, of "''todo.org''"]
  have "Save
       \<lparr>Path = ''todo.org'',
      Items = [Item \<lparr>ref = 0, Level = 1, State = ''TODO'', Title = ''T'',
        Scheduled = Some \<lparr>tYear = 2024, tMonth = 1, tDay = 15, tHour = 0, tMinute = 0, tSecond = 0, tNano = 0\<rparr>,
        Deadline = None, Notes = [''SCHEDULED: <2024-01-15 Mon>''], Folded = False,
        ClockEntries = []\<rparr>
       [Item \<lparr>ref = 1, Level = 2, State = [], Title = ''Sub'', Scheduled = None, Deadline = None,
          Notes = ['':LOGBOOK:'', ''CLOCK: [2024-01-15 Mon 10:00]--[2024-01-15 Mon 11:00]'',
                   '':END:'', ''#+BEGIN_SRC org'', ''*  x'', [], ''#+END_SRC'', ''note''],
          Folded = False,
          ClockEntries = [\<lparr>Start = \<lparr>tYear = 2024, tMonth = 1, tDay = 15, tHour = 10, tMinute = 0, tSecond = 0, tNano = 0\<rparr>,
            End = Some \<lparr>tYear = 2024, tMonth = 1, tDay = 15, tHour = 11, tMinute = 0, tSecond = 0, tNano = 0\<rparr>\<rparr>]\<rparr> []]]\<rparr>
     = ''* TODO T\<newline>SCHEDULED: <2024-01-15 Mon>\<newline>** Sub\<newline>:LOGBOOK:\<newline>CLOCK: [2024-01-15 Mon 10:00]--[2024-01-15 Mon 11:00]\<newline>:END:\<newline>#+BEGIN_SRC org\<newline>*  x\<newline>\<newline>#+END_SRC\<newline>note\<newline>''"
    using n unfolding unlines_example parse_example by simp
  with canonical_example parse_example n show ?thesis by blast
qed

text \<open>
  The lines of a source block are free also right under a heading: a line of stars that
  is not in normal form and an empty line are canonical there.
\<close>

lemma source_block_example:
  "canonical [''* A'', ''#+BEGIN_SRC'', ''*  x'', [], ''#+END_SRC'']"
proof -
  have 1: "list_all (\<lambda>l. CHR 0x0A \<notin> set l \<and> dropCR l = l) [''* A'', ''#+BEGIN_SRC'', ''*  x'', [], ''#+END_SRC'']"
    by code_simp
  have 2: "list_all (\<lambda>l. length l < MaxScanTokenSize) [''* A'', ''#+BEGIN_SRC'', ''*  x'', [], ''#+END_SRC'']"
    by (simp add: MaxScanTokenSize_def)
  have 3: "canonicalFrom False False [''* A'', ''#+BEGIN_SRC'', ''*  x'', [], ''#+END_SRC'']"
    by code_simp
  have 4: "headingPattern ''* A'' \<noteq> None"
    by code_simp
  from 1 2 have "list_all (\<lambda>l. CHR 0x0A \<notin> set l \<and> dropCR l = l \<and> length l < MaxScanTokenSize)
     [''* A'', ''#+BEGIN_SRC'', ''*  x'', [], ''#+END_SRC'']"
    unfolding list_all_iff by blast
  with 3 4 show ?thesis
    unfolding canonical_def by simp
qed

text \<open>
  The claim as stated fails on texts that have nothing to add: a line before the first
  heading, two spaces after the stars, a blank line under a heading, a line ended by
  carriage return and newline, and a last line without a newline all parse to the same
  document, which is written as the single line \<^verbatim>\<open>* A\<close>.
\<close>

lemma parse_preamble:
  "ParseOrgFile ''todo.org'' (Contents (''intro\<newline>* A\<newline>''))
   = Inr \<lparr>Path = ''todo.org'', Items = [newItem 0 (''*'', [], ''A'')]\<rparr>"
proof -
  have 1: "scanLines [] (''intro\<newline>* A\<newline>'') = [''intro'', ''* A'']"
    by code_simp
  have 2: "list_ex (\<lambda>l. MaxScanTokenSize \<le> length l) [''intro'', ''* A''] = False"
    by (simp add: MaxScanTokenSize_def)
  have 3: "orgFile (foldl step (initial ''todo.org'') (map dropCR [''intro'', ''* A'']))
   = \<lparr>Path = ''todo.org'', Items = [newItem 0 (''*'', [], ''A'')]\<rparr>"
    by code_simp
  show ?thesis
    unfolding ParseOrgFile_def os_file.case Let_def 1 2 3 by simp
qed

lemma parse_spaces:
  "ParseOrgFile ''todo.org'' (Contents (''*  A\<newline>''))
   = Inr \<lparr>Path = ''todo.org'', Items = [newItem 0 (''*'', [], ''A'')]\<rparr>"
proof -
  have 1: "scanLines [] (''*  A\<newline>'') = [''*  A'']"
    by code_simp
  have 2: "list_ex (\<lambda>l. MaxScanTokenSize \<le> length l) [''*  A''] = False"
    by (simp add: MaxScanTokenSize_def)
  have 3: "orgFile (foldl step (initial ''todo.org'') (map dropCR [''*  A'']))
   = \<lparr>Path = ''todo.org'', Items = [newItem 0 (''*'', [], ''A'')]\<rparr>"
    by code_simp
  show ?thesis
    unfolding ParseOrgFile_def os_file.case Let_def 1 2 3 by simp
qed

lemma parse_blank:
  "ParseOrgFile ''todo.org'' (Contents (''* A\<newline>\<newline>''))
   = Inr \<lparr>Path = ''todo.org'', Items = [newItem 0 (''*'', [], ''A'')]\<rparr>"
proof -
  have 1: "scanLines [] (''* A\<newline>\<newline>'') = [''* A'', []]"
    by code_simp
  have 2: "list_ex (\<lambda>l. MaxScanTokenSize \<le> length l) [''* A'', []] = False"
    by (simp add: MaxScanTokenSize_def)
  have 3: "orgFile (foldl step (initial ''todo.org'') (map dropCR [''* A'', []]))
   = \<lparr>Path = ''todo.org'', Items = [newItem 0 (''*'', [], ''A'')]\<rparr>"
    by code_simp
  show ?thesis
    unfolding ParseOrgFile_def os_file.case Let_def 1 2 3 by simp
qed

lemma parse_crlf:
  "ParseOrgFile ''todo.org'' (Contents (''* A'' @ [CHR 0x0D, CHR 0x0A]))
   = Inr \<lparr>Path = ''todo.org'', Items = [newItem 0 (''*'', [], ''A'')]\<rparr>"
proof -
  have 1: "scanLines [] (''* A'' @ [CHR 0x0D, CHR 0x0A]) = [''* A'' @ [CHR 0x0D]]"
    by code_simp
  have 2: "list_ex (\<lambda>l. MaxScanTokenSize \<le> length l) [''* A'' @ [CHR 0x0D]] = False"
    by (simp add: MaxScanTokenSize_def)
  have 3: "orgFile (foldl step (initial ''todo.org'') (map dropCR [''* A'' @ [CHR 0x0D]]))
   = \<lparr>Path = ''todo.org'', Items = [newItem 0 (''*'', [], ''A'')]\<rparr>"
    by code_simp
  show ?thesis
    unfolding ParseOrgFile_def os_file.case Let_def 1 2 3 by simp
qed

lemma parse_unterminated:
  "ParseOrgFile ''todo.org'' (Contents (''* A''))
   = Inr \<lparr>Path = ''todo.org'', Items = [newItem 0 (''*'', [], ''A'')]\<rparr>"
proof -
  have 1: "scanLines [] (''* A'') = [''* A'']"
    by code_simp
  have 2: "list_ex (\<lambda>l. MaxScanTokenSize \<le> length l) [''* A''] = False"
    by (simp add: MaxScanTokenSize_def)
  have 3: "orgFile (foldl step (initial ''todo.org'') (map dropCR [''* A'']))
   = \<lparr>Path = ''todo.org'', Items = [newItem 0 (''*'', [], ''A'')]\<rparr>"
    by code_simp
  show ?thesis
    unfolding ParseOrgFile_def os_file.case Let_def 1 2 3 by simp
qed

theorem round_trip_counterexample:
  "ParseOrgFile ''todo.org'' (Contents (''intro\<newline>* A\<newline>''))
     = Inr \<lparr>Path = ''todo.org'', Items = [newItem 0 (''*'', [], ''A'')]\<rparr>
   \<and> ParseOrgFile ''todo.org'' (Contents (''*  A\<newline>''))
     = Inr \<lparr>Path = ''todo.org'', Items = [newItem 0 (''*'', [], ''A'')]\<rparr>
   \<and> ParseOrgFile ''todo.org'' (Contents (''* A\<newline>\<newline>''))
     = Inr \<lparr>Path = ''todo.org'', Items = [newItem 0 (''*'', [], ''A'')]\<rparr>
   \<and> ParseOrgFile ''todo.org'' (Contents (''* A'' @ [CHR 0x0D, CHR 0x0A]))
     = Inr \<lparr>Path = ''todo.org'', Items = [newItem 0 (''*'', [], ''A'')]\<rparr>
   \<and> ParseOrgFile ''todo.org'' (Contents (''* A''))
     = Inr \<lparr>Path = ''todo.org'', Items = [newItem 0 (''*'', [], ''A'')]\<rparr>
   \<and> list_all (\<lambda>item. nothingToAdd (dat item))
        (allItems (Items \<lparr>Path = ''todo.org'', Items = [newItem 0 (''*'', [], ''A'')]\<rparr>))
   \<and> Save \<lparr>Path = ''todo.org'', Items = [newItem 0 (''*'', [], ''A'')]\<rparr> = ''* A\<newline>''
   \<and> Save \<lparr>Path = ''todo.org'', Items = [newItem 0 (''*'', [], ''A'')]\<rparr> \<noteq> ''intro\<newline>* A\<newline>''
   \<and> Save \<lparr>Path = ''todo.org'', Items = [newItem 0 (''*'', [], ''A'')]\<rparr> \<noteq> ''*  A\<newline>''
   \<and> Save \<lparr>Path = ''todo.org'', Items = [newItem 0 (''*'', [], ''A'')]\<rparr> \<noteq> ''* A\<newline>\<newline>''
   \<and> Save \<lparr>Path = ''todo.org'', Items = [newItem 0 (''*'', [], ''A'')]\<rparr> \<noteq> ''* A'' @ [CHR 0x0D, CHR 0x0A]
   \<and> Save \<lparr>Path = ''todo.org'', Items = [newItem 0 (''*'', [], ''A'')]\<rparr> \<noteq> ''* A''"
proof -
  have n: "list_all (\<lambda>item. nothingToAdd (dat item))
        (allItems (Items \<lparr>Path = ''todo.org'', Items = [newItem 0 (''*'', [], ''A'')]\<rparr>))"
    by code_simp
  have s: "Save \<lparr>Path = ''todo.org'', Items = [newItem 0 (''*'', [], ''A'')]\<rparr> = ''* A\<newline>''"
    by code_simp
  show ?thesis
    unfolding s parse_preamble parse_spaces parse_blank parse_crlf parse_unterminated
    using n by simp
qed

text \<open>
  A line that does not fit the scanner makes the parser return an error, whatever the
  other lines are.
\<close>

lemma long_line_error:
  assumes "list_all (\<lambda>l. CHR 0x0A \<notin> set l) ls"
    and "list_ex (\<lambda>l. MaxScanTokenSize \<le> length l) ls"
  shows "ParseOrgFile path (Contents (unlines ls)) = Inl ErrTooLong"
  using assms by (simp add: ParseOrgFile_def scanLines_unlines)

section \<open>The canonical form is the form of the texts that come back\<close>

text \<open>
  The other direction of the round trip: the form asked of the text is no more than
  what the program needs. A heading line is never shorter than its normal form, the
  parser keeps no more lines than it reads, and it keeps a line as it is only when the
  line has no carriage return at its end. So lines that are kept without change are
  canonical.
\<close>

lemma HasPrefix_length: "HasPrefix s p \<Longrightarrow> length s = length p + length (drop (length p) s)"
  unfolding HasPrefix_def by (metis append_take_drop_id length_append)

lemma stateToken_length:
  assumes "stateToken s = Some (kw, r)"
  shows "length s = length kw + length r"
proof -
  from assms have "HasPrefix s kw \<and> r = drop (length kw) s"
    by (auto simp: stateToken_def eval_nat_numeral split: if_splits)
  then show ?thesis using HasPrefix_length by blast
qed

lemma headingGroups_length:
  assumes "headingGroups l = Some (m1, m2, m3)"
  shows "length m1 + (if m2 = [] then 0 else Suc (length m2)) + Suc (length m3) \<le> length l"
proof -
  let ?stars = "takeWhile (\<lambda>c. c = CHR ''*'') l"
  let ?r1 = "dropWhile (\<lambda>c. c = CHR ''*'') l"
  let ?ws = "takeWhile reSpace ?r1"
  let ?r2 = "dropWhile reSpace ?r1"
  have "length l = length ?stars + length ?r1"
    by (metis takeWhile_dropWhile_id length_append)
  moreover have "length ?r1 = length ?ws + length ?r2"
    by (metis takeWhile_dropWhile_id length_append)
  ultimately have L: "length l = length ?stars + length ?ws + length ?r2"
    by simp
  have "?ws \<noteq> []"
    using assms by (auto simp: headingGroups_def Let_def split: if_splits)
  then have w1: "1 \<le> length ?ws" by (cases ?ws) simp_all
  show ?thesis
  proof (cases "stateToken ?r2")
    case None
    with assms L w1 show ?thesis
      by (auto simp: headingGroups_def Let_def split: if_splits)
  next
    case (Some a)
    obtain kw r3 where a: "a = (kw, r3)" by (cases a)
    let ?ws2 = "takeWhile reSpace r3"
    let ?r4 = "dropWhile reSpace r3"
    have "length r3 = length ?ws2 + length ?r4"
      by (metis takeWhile_dropWhile_id length_append)
    with stateToken_length [of ?r2 kw r3] Some a
    have K: "length ?r2 = length kw + length ?ws2 + length ?r4"
      by simp
    have w2: "?ws2 \<noteq> [] \<Longrightarrow> 1 \<le> length ?ws2" by (cases ?ws2) simp_all
    from assms Some a L K w1 w2 show ?thesis
      by (auto simp: headingGroups_def Let_def split: if_splits)
  qed
qed

lemma heading_length:
  assumes "headingPattern l = Some m"
  shows "length (specHeading (dat (newItem 0 m))) \<le> length l"
proof -
  obtain m1 m2 m3 where m: "m = (m1, m2, m3)" by (cases m)
  with assms have "headingGroups l = Some (m1, m2, m3)"
    by (auto simp: headingPattern_def split: option.splits if_splits)
  from headingGroups_length [OF this] show ?thesis
    by (cases "m2 = []") (simp_all add: m specHeading_def newItem_def state_defs)
qed

lemma heading_no_newline:
  assumes "headingPattern l = Some m"
  shows "CHR 0x0A \<notin> set (specHeading (dat (newItem 0 m)))"
proof -
  obtain m1 m2 m3 where m: "m = (m1, m2, m3)" by (cases m)
  from assms m have "CHR 0x0A \<notin> set m3"
    by (auto simp: headingPattern_def split: option.splits if_splits)
  moreover from headingPattern_wf [OF assms [unfolded m]]
  have "CHR 0x0A \<notin> set m2" by auto
  ultimately show ?thesis
    by (simp add: m specHeading_def newItem_def)
qed

lemma kept_no_newline:
  "list_all (\<lambda>l. CHR 0x0A \<notin> set l) ls \<Longrightarrow> list_all (\<lambda>l. CHR 0x0A \<notin> set l) (kept opn b h ls)"
proof (induction ls arbitrary: opn b h)
  case Nil
  show ?case by simp
next
  case (Cons l ls)
  then show ?case
    by (cases "headingPattern l") (simp_all add: heading_no_newline)
qed

lemma length_kept: "length (kept opn b h ls) \<le> length ls"
proof (induction ls arbitrary: opn b h)
  case Nil
  show ?case by simp
next
  case (Cons l ls)
  have "length (kept o' b' h' ls) \<le> Suc (length ls)" for o' b' h'
    using Cons [of o' b' h'] by simp
  with Cons show ?case
    by (cases "headingPattern l") simp_all
qed

lemma dropCR_length: "length l \<le> length (dropCR l) \<Longrightarrow> dropCR l = l"
  by (cases l rule: rev_cases) (auto simp: dropCR_def)

lemma dropCR_no_newline: "CHR 0x0A \<notin> set l \<Longrightarrow> CHR 0x0A \<notin> set (dropCR l)"
  by (auto simp: dropCR_def dest: in_set_butlastD)

lemma kept_fixed:
  "kept True b h (map dropCR ls) = ls \<Longrightarrow> map dropCR ls = ls \<and> canonicalFrom b h ls"
proof (induction ls arbitrary: b h)
  case Nil
  show ?case by simp
next
  case (Cons l ls)
  let ?l = "dropCR l"
  show ?case
  proof (cases "codeBlockStart ?l \<or> codeBlockEnd ?l \<or> b")
    case True
    then consider "codeBlockStart ?l"
      | "\<not> codeBlockStart ?l" "codeBlockEnd ?l"
      | "\<not> codeBlockStart ?l" "\<not> codeBlockEnd ?l" "b"
      by blast
    then show ?thesis
    proof cases
      case 1
      with Cons.prems have l: "?l = l" and k: "kept True True False (map dropCR ls) = ls"
        by simp_all
      from 1 have "codeBlockStart l" by (simp add: l)
      with Cons.IH [OF k] show ?thesis by (simp add: l)
    next
      case 2
      with Cons.prems have l: "?l = l" and k: "kept True False False (map dropCR ls) = ls"
        by simp_all
      from 2 have "\<not> codeBlockStart l" "codeBlockEnd l" by (simp_all add: l)
      with Cons.IH [OF k] show ?thesis by (simp add: l)
    next
      case 3
      with Cons.prems have l: "?l = l" and k: "kept True True False (map dropCR ls) = ls"
        by simp_all
      from 3 have "\<not> codeBlockStart l" "\<not> codeBlockEnd l" by (simp_all add: l)
      with Cons.IH [OF k] 3(3) show ?thesis by (simp add: l)
    qed
  next
    case False
    show ?thesis
    proof (cases "headingPattern ?l")
      case (Some m)
      with False Cons.prems have e: "specHeading (dat (newItem 0 m)) = l"
        and k: "kept True False True (map dropCR ls) = ls"
        by simp_all
      from heading_length [OF Some] e have "length l \<le> length ?l" by simp
      then have l: "?l = l" by (rule dropCR_length)
      from Cons.IH [OF k] False Some e show ?thesis
        by (simp add: l normalHeading_def)
    next
      case None
      show ?thesis
      proof (cases "h \<and> TrimSpace_empty ?l")
        case True
        with False None Cons.prems have "kept True False h (map dropCR ls) = l # ls"
          by simp
        then have "length (kept True False h (map dropCR ls)) = Suc (length (map dropCR ls))"
          by simp
        with length_kept [of True False h "map dropCR ls"] show ?thesis by simp
      next
        case nd: False
        with False None Cons.prems have l: "?l = l"
          and k: "kept True False False (map dropCR ls) = ls"
          by auto
        from Cons.IH [OF k] False None nd show ?thesis
          by (auto simp: l)
      qed
    qed
  qed
qed

lemma kept_fixed_start:
  assumes "kept False False False (map dropCR ls) = ls"
  shows "map dropCR ls = ls \<and> (ls = [] \<or> headingPattern (hd ls) \<noteq> None)
           \<and> canonicalFrom False False ls"
proof (cases ls)
  case Nil
  then show ?thesis by simp
next
  case (Cons l ls')
  let ?l = "dropCR l"
  have short: "kept False b h (map dropCR ls') \<noteq> l # ls'" for b h
  proof
    assume "kept False b h (map dropCR ls') = l # ls'"
    then have "length (kept False b h (map dropCR ls')) = Suc (length (map dropCR ls'))"
      by simp
    with length_kept [of False b h "map dropCR ls'"] show False by simp
  qed
  from assms Cons short have nb: "\<not> codeBlockStart ?l" "\<not> codeBlockEnd ?l"
    by (auto split: if_splits)
  from assms Cons short nb obtain m where m: "headingPattern ?l = Some m"
    by (cases "headingPattern ?l") auto
  with assms Cons nb have e: "specHeading (dat (newItem 0 m)) = l"
    and k: "kept True False True (map dropCR ls') = ls'"
    by simp_all
  from heading_length [OF m] e have "length l \<le> length ?l" by simp
  then have l: "?l = l" by (rule dropCR_length)
  from kept_fixed [OF k] m nb e show ?thesis
    by (simp add: Cons l normalHeading_def)
qed

lemma scanLines_no_newline:
  "CHR 0x0A \<notin> set cur \<Longrightarrow> list_all (\<lambda>l. CHR 0x0A \<notin> set l) (scanLines cur bytes)"
  by (induction bytes arbitrary: cur) simp_all

text \<open>
  So a text that the round trip gives back, in a document that leaves the serializer
  nothing to add, is a text of canonical lines.
\<close>

lemma returned_text_canonical:
  assumes "ParseOrgFile path (Contents bytes) = Inr orgf"
    and "list_all (\<lambda>item. nothingToAdd (dat item)) (allItems (Items orgf))"
    and "Save orgf = bytes"
  shows "\<exists>ls. bytes = unlines ls \<and> canonical ls"
proof -
  define raw where "raw = scanLines [] bytes"
  define ks where "ks = kept False False False (map dropCR raw)"
  from assms(1) have short: "\<not> list_ex (\<lambda>l. MaxScanTokenSize \<le> length l) raw"
    and orgf: "orgf = orgFile (foldl step (initial path) (map dropCR raw))"
    by (auto simp: ParseOrgFile_def Let_def raw_def split: if_splits)
  have "Save orgf = unlines (concat (map noteLines (Items orgf)))"
    using assms(2) by (rule Save_noteLines)
  then have bytes: "bytes = unlines ks"
    using assms(3) by (simp add: orgf parse_kept ks_def)
  have "list_all (\<lambda>l. CHR 0x0A \<notin> set l) raw"
    unfolding raw_def by (rule scanLines_no_newline) simp
  then have "list_all (\<lambda>l. CHR 0x0A \<notin> set l) (map dropCR raw)"
    by (auto simp: list_all_iff dest: dropCR_no_newline)
  then have nl: "list_all (\<lambda>l. CHR 0x0A \<notin> set l) ks"
    unfolding ks_def by (rule kept_no_newline)
  have "scanLines [] (unlines ks) = ks"
    using nl by (rule scanLines_unlines)
  then have scan: "raw = ks" by (simp add: raw_def bytes)
  have fixed: "kept False False False (map dropCR ks) = ks"
    using ks_def [symmetric] unfolding scan .
  from kept_fixed_start [OF fixed]
  have cr: "map dropCR ks = ks" and hd: "ks = [] \<or> headingPattern (hd ks) \<noteq> None"
    and cf: "canonicalFrom False False ks"
    by simp_all
  from cr have "map dropCR ks = map id ks" by simp
  then have 1: "\<forall>l \<in> set ks. dropCR l = l" by (simp only: map_eq_conv id_apply)
  have 2: "\<forall>l \<in> set ks. length l < MaxScanTokenSize"
    using short unfolding scan by (auto simp: list_ex_iff)
  have 3: "\<forall>l \<in> set ks. CHR 0x0A \<notin> set l"
    using nl by (simp add: list_all_iff)
  from 1 2 3
  have "list_all (\<lambda>l. CHR 0x0A \<notin> set l \<and> dropCR l = l \<and> length l < MaxScanTokenSize) ks"
    by (simp add: list_all_iff)
  with hd cf have "canonical ks" by (simp add: canonical_def)
  with bytes show ?thesis by blast
qed

end
